theory Spec2Isabelle
  imports Complex_Main
begin

unbundle bit_operations_syntax

section \<open>Data model\<close>

text \<open>
  The program is \<^verbatim>\<open>src/code/five_step_cycle.py\<close>. A numpy bit array is an \<open>int list\<close>,
  a one-dimensional complex array a \<open>complex list\<close>, a two-dimensional one the list of
  its rows. Floating-point numbers are modelled by exact reals and complex numbers; a
  float that numpy computes as NaN (0/0, the mean of an empty array) is \<open>None\<close> of a
  \<open>real option\<close>. Exceptions are values of \<open>error\<close>: \<open>IndexError\<close> and
  \<open>ValueError\<close> are the ones numpy raises on an index out of bounds and on operands
  whose shapes do not fit, \<open>LinAlgError\<close> the one of \<open>np.linalg\<close> on a matrix that is
  not square; \<open>DimensionMismatch\<close> is the error the specification names,
  which no line of the source raises.
\<close>

type_synonym cvec = "complex list"
type_synonym cmat = "complex list list"

datatype error = DimensionMismatch | IndexError | ValueError | LinAlgError

text \<open>Class \<^verbatim>\<open>SystemState\<close>; the attribute \<^verbatim>\<open>_points\<close> is the field \<open>points\<close>.\<close>

record SystemState =
  C :: "int list"
  Q :: cmat
  morphisms_applied :: "string set"
  points :: "(real \<times> real) list option"

definition N_BITS :: nat where "N_BITS = 8"
definition N_QUBITS :: nat where "N_QUBITS = 3"
definition DIM_HILBERT :: nat where "DIM_HILBERT = 2 ^ N_QUBITS"
definition A_PARAM :: real where "A_PARAM = 0.68"
definition PRG_SEED :: "int list" where "PRG_SEED = [0, 1, 1, 0]"

section \<open>Classical bit transforms\<close>

text \<open>
  \<^verbatim>\<open>prg_expand\<close>: one iteration of the loop emits \<open>state[0]\<close>, rolls the register one
  place to the left and overwrites its last cell with \<open>state[3] ^ state[2]\<close> (read
  before the roll). The seed has four cells at the only call site.
\<close>

definition lfsr_step :: "int list \<Rightarrow> int list" where
  "lfsr_step state =
     (let new_bit = (state ! 3) XOR (state ! 2);
          rolled = tl state @ [hd state]
      in rolled[length rolled - 1 := new_bit])"

fun prg_loop :: "nat \<Rightarrow> int list \<Rightarrow> int list \<Rightarrow> int list" where
  "prg_loop 0 state output = output"
| "prg_loop (Suc k) state output = prg_loop k (lfsr_step state) (output @ [state ! 0])"

definition prg_expand :: "int list \<Rightarrow> nat \<Rightarrow> int list" where
  "prg_expand seed target_length = prg_loop target_length seed []"

text \<open>\<^verbatim>\<open>parity\<close>: \<open>int(np.sum(bits) % 2)\<close>, Python's \<open>%\<close> with a positive modulus.\<close>

definition parity :: "int list \<Rightarrow> int" where
  "parity bits = sum_list bits mod 2"

text \<open>
  \<^verbatim>\<open>arnold_cat_map_bits\<close>. The arguments \<open>A\<close> and \<open>modulus\<close> are never read by the
  source and are left out. Python's integers are unbounded, so the integer is an \<open>int\<close>
  and every mask is written as in the source.
\<close>

fun bits_to_int :: "int list \<Rightarrow> nat \<Rightarrow> int \<Rightarrow> int" where
  "bits_to_int [] i acc = acc"
| "bits_to_int (b # bs) i acc = bits_to_int bs (Suc i) (acc OR push_bit i b)"

definition chaos_round :: "int \<Rightarrow> int \<Rightarrow> nat \<Rightarrow> int" where
  "chaos_round original bit_int rnd =
     (let b1 = (bit_int * 137) AND 255;
          b2 = b1 XOR ((push_bit 4 b1 OR drop_bit 4 b1) AND 255);
          b3 = b2 XOR (drop_bit rnd original AND 255)
      in b3)"

definition arnold_cat_map_bits :: "int list \<Rightarrow> int list" where
  "arnold_cat_map_bits bits =
     (let n = length bits;
          original = bits_to_int bits 0 0;
          mixed = foldl (chaos_round original) original [0..<3];
          final = mixed XOR 170
      in map (\<lambda>i. drop_bit i final AND 1) [0..<n])"

section \<open>Dense linear algebra\<close>

definition zeros :: "nat \<Rightarrow> cvec" where
  "zeros n = replicate n 0"

definition eye :: "nat \<Rightarrow> cmat" where
  "eye n = map (\<lambda>i. map (\<lambda>j. if i = j then 1 else 0) [0..<n]) [0..<n]"

definition dot :: "cvec \<Rightarrow> cvec \<Rightarrow> complex" where
  "dot u v = sum_list (map2 (*) u v)"

definition ncols :: "cmat \<Rightarrow> nat" where
  "ncols M = (case M of [] \<Rightarrow> 0 | r # _ \<Rightarrow> length r)"

definition column :: "cmat \<Rightarrow> nat \<Rightarrow> cvec" where
  "column M j = map (\<lambda>r. r ! j) M"

text \<open>\<open>M @ v\<close> and \<open>A @ B\<close> on operands whose shapes fit.\<close>

definition mat_vec :: "cmat \<Rightarrow> cvec \<Rightarrow> cvec" where
  "mat_vec M v = map (\<lambda>r. dot r v) M"

definition matmul :: "cmat \<Rightarrow> cmat \<Rightarrow> cmat" where
  "matmul A B = map (\<lambda>r. map (\<lambda>j. dot r (column B j)) [0..<ncols B]) A"

text \<open>\<open>np.kron\<close>, \<open>np.outer\<close>, \<open>M.conj().T\<close>, \<open>np.trace\<close>.\<close>

definition kron :: "cmat \<Rightarrow> cmat \<Rightarrow> cmat" where
  "kron A B =
     concat (map (\<lambda>ra. map (\<lambda>rb. concat (map (\<lambda>a. map (\<lambda>b. a * b) rb) ra)) B) A)"

definition outer :: "cvec \<Rightarrow> cvec \<Rightarrow> cmat" where
  "outer u v = map (\<lambda>a. map (\<lambda>b. a * b) v) u"

definition dagger :: "cmat \<Rightarrow> cmat" where
  "dagger M = map (\<lambda>j. map cnj (column M j)) [0..<ncols M]"

definition trace :: "cmat \<Rightarrow> complex" where
  "trace M = sum_list (map (\<lambda>i. M ! i ! i) [0..<length M])"

definition mat_add :: "cmat \<Rightarrow> cmat \<Rightarrow> cmat" where
  "mat_add A B = map2 (map2 (+)) A B"

definition mat_scale :: "complex \<Rightarrow> cmat \<Rightarrow> cmat" where
  "mat_scale c M = map (map ((*) c)) M"

definition is_mat :: "nat \<Rightarrow> nat \<Rightarrow> cmat \<Rightarrow> bool" where
  "is_mat r c M = (length M = r \<and> list_all (\<lambda>row. length row = c) M)"

text \<open>
  A matrix is square when it has as many rows as every row has entries; \<open>Q @ Q\<close> raises
  \<open>ValueError\<close> and \<open>np.linalg\<close> raises \<open>LinAlgError\<close> on any other.
\<close>

definition is_square :: "cmat \<Rightarrow> bool" where
  "is_square M = is_mat (length M) (length M) M"

section \<open>Quantum primitives\<close>

text \<open>
  The bits of a basis index, least significant first:
  \<open>bits = [(i >> k) & 1 for k in range(n_qubits)]\<close>, and the way back,
  \<open>sum(b << k for k, b in enumerate(bits))\<close>.
\<close>

definition qubit_bits :: "nat \<Rightarrow> nat \<Rightarrow> nat list" where
  "qubit_bits n_qubits i = map (\<lambda>k. (i div 2 ^ k) mod 2) [0..<n_qubits]"

definition bits_value :: "nat list \<Rightarrow> nat" where
  "bits_value bs = sum_list (map2 (\<lambda>k b. b * 2 ^ k) [0..<length bs] bs)"

text \<open>
  \<^verbatim>\<open>cnot_gate\<close>: the loop over \<open>i\<close> swaps rows \<open>i\<close> and \<open>j\<close> of the matrix it is
  building whenever the control bit of \<open>i\<close> is set and \<open>i < j\<close>. The source's contract
  is \<open>0 \<le> control, target < n_qubits\<close>; every call site passes control \<open>0\<close> and a
  target in \<open>1..n_qubits-1\<close>.
\<close>

definition swap_rows :: "nat \<Rightarrow> nat \<Rightarrow> cmat \<Rightarrow> cmat" where
  "swap_rows i j U = U[i := U ! j, j := U ! i]"

definition cnot_step :: "nat \<Rightarrow> nat \<Rightarrow> nat \<Rightarrow> cmat \<Rightarrow> nat \<Rightarrow> cmat" where
  "cnot_step n_qubits control target U i =
     (let bits = qubit_bits n_qubits i in
      if bits ! control = 1 then
        (let bits_flipped = bits[target := 1 - bits ! target];
             j = bits_value bits_flipped
         in if i < j then swap_rows i j U else U)
      else U)"

definition cnot_gate :: "nat \<Rightarrow> nat \<Rightarrow> nat \<Rightarrow> cmat" where
  "cnot_gate n_qubits control target =
     foldl (cnot_step n_qubits control target) (eye (2 ^ n_qubits)) [0..<2 ^ n_qubits]"

text \<open>\<open>H = np.array([[1, 1], [1, -1]]) / np.sqrt(2)\<close>.\<close>

definition hadamard :: cmat where
  "hadamard = [[1 / complex_of_real (sqrt 2), 1 / complex_of_real (sqrt 2)],
               [1 / complex_of_real (sqrt 2), - 1 / complex_of_real (sqrt 2)]]"

text \<open>
  \<^verbatim>\<open>prepare_ghz_state\<close>, for \<open>n_qubits \<ge> 1\<close> (the source's contract is \<open>n_qubits \<ge> 2\<close>,
  the call site passes 3). The Hadamard is embedded as \<open>np.kron(H, np.eye(2**(n-1)))\<close>.
\<close>

definition prepare_ghz_state :: "nat \<Rightarrow> cmat" where
  "prepare_ghz_state n_qubits =
     (let dim = 2 ^ n_qubits;
          psi0 = (zeros dim)[0 := 1];
          H_full = kron hadamard (eye (2 ^ (n_qubits - 1)));
          psi1 = mat_vec H_full psi0;
          psi2 = foldl (\<lambda>psi target. mat_vec (cnot_gate n_qubits 0 target) psi)
                   psi1 [1..<n_qubits]
      in outer psi2 (map cnj psi2))"

section \<open>Morphisms\<close>

text \<open>
  \<^verbatim>\<open>morphism_1_circuit_compilation\<close> (f_alg). The result is a fresh
  \<^verbatim>\<open>SystemState\<close>, so its point cloud is \<open>None\<close>.
\<close>

definition morphism_1_circuit_compilation :: "SystemState \<Rightarrow> SystemState" where
  "morphism_1_circuit_compilation state =
     \<lparr> C = prg_expand PRG_SEED N_BITS,
       Q = prepare_ghz_state N_QUBITS,
       morphisms_applied = insert ''f_alg'' (morphisms_applied state),
       points = None \<rparr>"

text \<open>
  \<^verbatim>\<open>projector_single_qubit\<close>: the diagonal 0/1 matrix that keeps the basis states whose
  bit \<open>qubit_index\<close> equals \<open>outcome\<close>.
\<close>

definition projector_single_qubit :: "nat \<Rightarrow> nat \<Rightarrow> nat \<Rightarrow> cmat" where
  "projector_single_qubit n_qubits qubit_index outcome =
     map (\<lambda>i. map (\<lambda>j. if i = j \<and> qubit_bits n_qubits i ! qubit_index = outcome
                         then 1 else 0) [0..<2 ^ n_qubits]) [0..<2 ^ n_qubits]"

text \<open>
  \<^verbatim>\<open>measure_qubit\<close>. The one random draw, \<open>np.random.choice([0, 1], p=[p_0, p_1])\<close>,
  is made explicit: \<open>u\<close> is the uniform sample in \<open>[0, 1)\<close> that numpy compares with the
  cumulative probabilities, so the outcome is 0 when \<open>u < p_0\<close> and 1 otherwise. The
  products \<open>P @ rho @ P\<close> raise \<open>ValueError\<close> unless \<open>rho\<close> is \<open>dim \<times> dim\<close>, and
  \<open>np.random.choice\<close> raises \<open>ValueError\<close> on probabilities that are NaN (\<open>total = 0\<close>)
  or negative.
\<close>

definition measure_qubit :: "real \<Rightarrow> cmat \<Rightarrow> nat \<Rightarrow> nat \<Rightarrow> error + (int \<times> cmat)" where
  "measure_qubit u rho qubit_index n_qubits =
     (let dim = 2 ^ n_qubits;
          P_0 = projector_single_qubit n_qubits qubit_index 0;
          P_1 = projector_single_qubit n_qubits qubit_index 1
      in if is_mat dim dim rho then
           (let p_0 = Re (trace (matmul (matmul P_0 rho) P_0));
                p_1 = Re (trace (matmul (matmul P_1 rho) P_1));
                total = p_0 + p_1
            in if total = 0 \<or> p_0 / total < 0 \<or> p_1 / total < 0 then Inl ValueError
               else
                 (let outcome = (if u < p_0 / total then 0 else 1);
                      rho_mixed_0 = matmul (matmul P_0 rho) P_0;
                      rho_mixed_1 = matmul (matmul P_1 rho) P_1;
                      rho_post = mat_add rho_mixed_0 rho_mixed_1;
                      depol_strength = 0.1;
                      rho_depol = mat_scale (1 / of_nat dim) (eye dim)
                  in Inr (outcome,
                          mat_add (mat_scale (1 - depol_strength) rho_post)
                                  (mat_scale depol_strength rho_depol))))
         else Inl ValueError)"

text \<open>
  \<^verbatim>\<open>morphism_2_syndrome_encoding\<close> (f_info). The four blocks are the slices
  \<open>C_1[i:i+2]\<close> for \<open>i = 0, 2, 4, 6\<close> (a slice never raises); the loop then writes
  \<open>C_2[2*i]\<close>, which raises \<open>IndexError\<close> as soon as \<open>2*i\<close> is out of bounds, before
  the measurement is reached.
\<close>

fun encode_syndromes :: "int list \<Rightarrow> nat \<Rightarrow> int list \<Rightarrow> error + int list" where
  "encode_syndromes C_2 i [] = Inr C_2"
| "encode_syndromes C_2 i (syn # rest) =
     (if 2 * i < length C_2
      then encode_syndromes (C_2[2 * i := (C_2 ! (2 * i) + syn) mod 2]) (Suc i) rest
      else Inl IndexError)"

definition syndrome_blocks :: "int list \<Rightarrow> int list list" where
  "syndrome_blocks bits = map (\<lambda>i. take 2 (drop i bits)) [0, 2, 4, 6]"

definition morphism_2_syndrome_encoding :: "real \<Rightarrow> SystemState \<Rightarrow> error + SystemState" where
  "morphism_2_syndrome_encoding u state =
     (let C_1 = C state; Q_1 = Q state;
          syndromes = map parity (syndrome_blocks C_1)
      in case encode_syndromes C_1 0 syndromes of
           Inl e \<Rightarrow> Inl e
         | Inr C_2 \<Rightarrow>
             (case measure_qubit u Q_1 0 N_QUBITS of
                Inl e \<Rightarrow> Inl e
              | Inr (outcome, Q_2) \<Rightarrow>
                  Inr \<lparr> C = C_2[0 := outcome], Q = Q_2,
                        morphisms_applied = insert ''f_info'' (morphisms_applied state),
                        points = None \<rparr>))"

text \<open>\<^verbatim>\<open>initial_state\<close>: eight zero bits and the pure state \<open>|000\<rangle>\<langle>000|\<close>.\<close>

definition initial_state :: SystemState where
  "initial_state =
     \<lparr> C = replicate N_BITS 0,
       Q = (map (\<lambda>i. zeros DIM_HILBERT) [0..<DIM_HILBERT])[0 := (zeros DIM_HILBERT)[0 := 1]],
       morphisms_applied = {},
       points = None \<rparr>"

text \<open>
  The Floquet evolution. The matrix exponential \<open>scipy.linalg.expm\<close> is not part of
  the program: the functions that call it take it as the parameter \<open>expm\<close>.
  \<open>np.linalg.matrix_power\<close> is the repeated product. In the two Hamiltonians the scalar
  \<open>term = 1.0\<close> that starts every Kronecker chain is the \<open>1 \<times> 1\<close> matrix \<open>[[1]]\<close>.
\<close>

definition J_ISING :: real where "J_ISING = pi / 4"
definition H_KICK :: real where "H_KICK = pi / 8"
definition N_KICKS :: nat where "N_KICKS = 5"
definition TAU :: real where "TAU = 0.5"

definition pauli_Z :: cmat where "pauli_Z = [[1, 0], [0, - 1]]"
definition pauli_X :: cmat where "pauli_X = [[0, 1], [1, 0]]"

definition zero_mat :: "nat \<Rightarrow> cmat" where
  "zero_mat n = replicate n (replicate n 0)"

fun mat_pow :: "cmat \<Rightarrow> nat \<Rightarrow> cmat" where
  "mat_pow M 0 = eye (length M)"
| "mat_pow M (Suc k) = matmul M (mat_pow M k)"

definition ising_term :: "nat \<Rightarrow> nat \<Rightarrow> cmat" where
  "ising_term n_qubits i =
     foldl (\<lambda>term k. if k = i \<or> k = i + 1 then kron term pauli_Z else kron term (eye 2))
       [[1]] [0..<n_qubits]"

definition ising_hamiltonian :: "nat \<Rightarrow> real \<Rightarrow> cmat" where
  "ising_hamiltonian n_qubits J =
     foldl (\<lambda>H i. mat_add H (mat_scale (complex_of_real J) (ising_term n_qubits i)))
       (zero_mat (2 ^ n_qubits)) [0..<n_qubits - 1]"

definition kick_term :: "nat \<Rightarrow> nat \<Rightarrow> cmat" where
  "kick_term n_qubits i =
     foldl (\<lambda>term k. if k = i then kron term pauli_X else kron term (eye 2))
       [[1]] [0..<n_qubits]"

definition kick_hamiltonian :: "nat \<Rightarrow> real \<Rightarrow> cmat" where
  "kick_hamiltonian n_qubits h =
     foldl (\<lambda>H i. mat_add H (mat_scale (complex_of_real h) (kick_term n_qubits i)))
       (zero_mat (2 ^ n_qubits)) [0..<n_qubits]"

definition kicked_ising_evolution ::
  "(cmat \<Rightarrow> cmat) \<Rightarrow> cmat \<Rightarrow> nat \<Rightarrow> real \<Rightarrow> real \<Rightarrow> real \<Rightarrow> nat \<Rightarrow> cmat" where
  "kicked_ising_evolution expm rho n_qubits J h tau n_kicks =
     (let H_ising = ising_hamiltonian n_qubits J;
          H_kick = kick_hamiltonian n_qubits h;
          U_ising = expm (mat_scale (complex_of_real tau) (mat_scale (- \<i>) H_ising));
          U_kick = expm (mat_scale (complex_of_real tau) (mat_scale (- \<i>) H_kick));
          U_floquet = matmul U_ising U_kick;
          U_total = mat_pow U_floquet n_kicks
      in matmul (matmul U_total rho) (dagger U_total))"

text \<open>
  \<^verbatim>\<open>morphism_3_arnold_cat\<close> (f_dyn). The product \<open>U_total @ rho @ U_total.conj().T\<close>
  raises \<open>ValueError\<close> unless \<open>rho\<close> is \<open>8 \<times> 8\<close>.
\<close>

definition morphism_3_arnold_cat :: "(cmat \<Rightarrow> cmat) \<Rightarrow> SystemState \<Rightarrow> error + SystemState" where
  "morphism_3_arnold_cat expm state =
     (let C_3 = arnold_cat_map_bits (C state) in
      if is_mat DIM_HILBERT DIM_HILBERT (Q state) then
        Inr \<lparr> C = C_3,
              Q = kicked_ising_evolution expm (Q state) N_QUBITS J_ISING H_KICK TAU N_KICKS,
              morphisms_applied = insert ''f_dyn'' (morphisms_applied state),
              points = None \<rparr>
      else Inl ValueError)"

section \<open>Geometry\<close>

text \<open>\<open>np.clip\<close>.\<close>

definition clip :: "real \<Rightarrow> real \<Rightarrow> real \<Rightarrow> real" where
  "clip x lo hi = min (max x lo) hi"

text \<open>
  \<^verbatim>\<open>bits_to_points\<close>. The seed is the bit string read as a binary numeral, first bit
  most significant, modulo \<open>2^31\<close>; \<open>int(..., 2)\<close> raises \<open>ValueError\<close> on an empty string
  and on a digit other than 0 and 1. The generator \<open>np.random.default_rng\<close> is a
  parameter: \<open>sampler seed n\<close> is the list of the \<open>n\<close> pairs of uniform samples in
  \<open>[0, 1)\<close> that the two calls of \<open>rng.random(n)\<close> return, the first for the radius and
  the second for the angle.
\<close>

definition binary_value :: "int list \<Rightarrow> int" where
  "binary_value bits = foldl (\<lambda>acc b. 2 * acc + b) 0 bits"

definition arctan2 :: "real \<Rightarrow> real \<Rightarrow> real" where
  "arctan2 y x = Arg (Complex x y)"

definition bits_to_points ::
  "(nat \<Rightarrow> nat \<Rightarrow> (real \<times> real) list) \<Rightarrow> int list \<Rightarrow> nat \<Rightarrow> error + (real \<times> real) list" where
  "bits_to_points sampler bits n_points =
     (if bits = [] then Inl ValueError
      else if list_all (\<lambda>b. b = 0 \<or> b = 1) bits then
        (let seed = nat (binary_value bits mod 2 ^ 31)
         in Inr (map (\<lambda>(u, v). (sqrt u * cos (2 * pi * v), sqrt u * sin (2 * pi * v)))
                  (sampler seed n_points)))
      else Inl ValueError)"

definition T_a :: "(real \<times> real) list \<Rightarrow> real \<Rightarrow> (real \<times> real) list" where
  "T_a pts a =
     map (\<lambda>(x, y).
            (let r = sqrt (x\<^sup>2 + y\<^sup>2);
                 theta = arctan2 y x;
                 r_prime = sqrt (a\<^sup>2 + (1 - a\<^sup>2) * r\<^sup>2)
             in (r_prime * cos theta, r_prime * sin theta))) pts"

text \<open>\<^verbatim>\<open>morphism_4_disk_to_annulus\<close> (f_geom): the bits and the density matrix are copied.\<close>

definition morphism_4_disk_to_annulus ::
  "(nat \<Rightarrow> nat \<Rightarrow> (real \<times> real) list) \<Rightarrow> SystemState \<Rightarrow> nat \<Rightarrow> error + SystemState" where
  "morphism_4_disk_to_annulus sampler state n_points =
     (case bits_to_points sampler (C state) n_points of
        Inl e \<Rightarrow> Inl e
      | Inr points_disk \<Rightarrow>
          Inr \<lparr> C = C state, Q = Q state,
                morphisms_applied = insert ''f_geom'' (morphisms_applied state),
                points = Some (T_a points_disk A_PARAM) \<rparr>)"

section \<open>Inverse morphisms\<close>

text \<open>\<^verbatim>\<open>f_geom_inv\<close>: the linear radial rescale of an attached cloud, clipped to \<open>[0, 1]\<close>.\<close>

definition f_geom_inv :: "SystemState \<Rightarrow> SystemState" where
  "f_geom_inv state =
     (let points_disk =
            (case points state of
               None \<Rightarrow> None
             | Some points_annulus \<Rightarrow>
                 Some (map (\<lambda>(x, y).
                        (let r_annulus = sqrt (x\<^sup>2 + y\<^sup>2);
                             theta = arctan2 y x;
                             a = A_PARAM;
                             r_disk = clip ((r_annulus - a) / (1 - a)) 0 1
                         in (r_disk * cos theta, r_disk * sin theta))) points_annulus))
      in \<lparr> C = C state, Q = Q state,
           morphisms_applied = morphisms_applied state - {''f_geom''},
           points = points_disk \<rparr>)"

text \<open>
  \<^verbatim>\<open>f_dyn_inv\<close>. The classical part reads \<open>C\<close> and writes a copy; the writes
  \<open>C_inv[source_idx] = unmixed[i]\<close> happen in the order of \<open>i\<close>, a later one overwriting
  an earlier one. The result is a fresh \<^verbatim>\<open>SystemState\<close>: the cloud is not carried over.
\<close>

definition unmix_bits :: "int list \<Rightarrow> int list" where
  "unmix_bits bits =
     (let n = length bits
      in map (\<lambda>i. (bits ! i + bits ! ((i + 1) mod n) + bits ! ((i + n - 1) mod n)) mod 2) [0..<n])"

definition unpermute_bits :: "int list \<Rightarrow> int list" where
  "unpermute_bits unmixed =
     (let n = length unmixed
      in foldl (\<lambda>C_inv i. C_inv[(2 * i + i div 2) mod n := unmixed ! i]) (replicate n 0) [0..<n])"

definition f_dyn_inv :: "(cmat \<Rightarrow> cmat) \<Rightarrow> SystemState \<Rightarrow> error + SystemState" where
  "f_dyn_inv expm state =
     (let C_inv = unpermute_bits (unmix_bits (C state));
          H_ising = ising_hamiltonian N_QUBITS J_ISING;
          H_kick = kick_hamiltonian N_QUBITS H_KICK;
          U_ising_dag = expm (mat_scale (complex_of_real TAU) (mat_scale \<i> H_ising));
          U_kick_dag = expm (mat_scale (complex_of_real TAU) (mat_scale \<i> H_kick));
          U_floquet_dag = matmul U_kick_dag U_ising_dag;
          U_total_dag = mat_pow U_floquet_dag N_KICKS
      in if is_mat DIM_HILBERT DIM_HILBERT (Q state) then
           Inr \<lparr> C = C_inv,
                 Q = matmul (matmul U_total_dag (Q state)) (dagger U_total_dag),
                 morphisms_applied = morphisms_applied state - {''f_dyn''},
                 points = None \<rparr>
         else Inl ValueError)"

text \<open>
  The eigensolver \<open>np.linalg.eigh\<close> is a parameter, \<open>eigh\<close>: it returns the eigenvalues and
  the matrix whose columns are the eigenvectors. It raises \<open>LinAlgError\<close> on a matrix
  that is not square. \<open>np.argmax\<close> is the first index of the maximum and raises
  \<open>ValueError\<close> on an empty array.
\<close>

fun argmax_from :: "nat \<Rightarrow> real \<Rightarrow> nat \<Rightarrow> real list \<Rightarrow> nat" where
  "argmax_from best_i best i [] = best_i"
| "argmax_from best_i best i (x # xs) =
     (if best < x then argmax_from i x (Suc i) xs else argmax_from best_i best (Suc i) xs)"

definition argmax :: "real list \<Rightarrow> nat" where
  "argmax xs = (case xs of [] \<Rightarrow> 0 | x # rest \<Rightarrow> argmax_from 0 x 1 rest)"

definition dominant_eigenvector :: "(cmat \<Rightarrow> real list \<times> cmat) \<Rightarrow> cmat \<Rightarrow> cvec" where
  "dominant_eigenvector eigh M =
     (let (eigenvals, eigenvecs) = eigh M;
          max_idx = argmax eigenvals
      in column eigenvecs max_idx)"

text \<open>
  \<^verbatim>\<open>f_info_inv\<close>: the syndromes are decoded first (an \<open>IndexError\<close> as in f_info), then
  the quantum component is replaced by the projector on its dominant eigenvector.
\<close>

fun decode_syndromes :: "int list \<Rightarrow> nat \<Rightarrow> int list \<Rightarrow> error + int list" where
  "decode_syndromes C_inv i [] = Inr C_inv"
| "decode_syndromes C_inv i (syn # rest) =
     (if 2 * i < length C_inv
      then decode_syndromes (C_inv[2 * i := (C_inv ! (2 * i) - syn) mod 2]) (Suc i) rest
      else Inl IndexError)"

definition f_info_inv :: "(cmat \<Rightarrow> real list \<times> cmat) \<Rightarrow> SystemState \<Rightarrow> error + SystemState" where
  "f_info_inv eigh state =
     (case decode_syndromes (C state) 0 (map parity (syndrome_blocks (C state))) of
        Inl e \<Rightarrow> Inl e
      | Inr C_dec \<Rightarrow>
          if is_square (Q state) then
            (if Q state = [] then Inl ValueError
             else
               (let dominant = dominant_eigenvector eigh (Q state)
                in Inr \<lparr> C = C_dec[0 := 0],
                         Q = outer dominant (map cnj dominant),
                         morphisms_applied = morphisms_applied state - {''f_info''},
                         points = None \<rparr>))
          else Inl LinAlgError)"

text \<open>
  \<^verbatim>\<open>f_alg_inv\<close>. The loop runs over the targets 2 and 1; each iteration takes the
  dominant eigenvector of \<open>Q\<close> afresh and applies one CNOT to it, so what leaves the loop
  is the eigenvector with the CNOT of the last target applied. \<open>CNOT @ psi\<close> raises
  \<open>ValueError\<close> unless the eigenvector has 8 entries.
\<close>

definition f_alg_inv :: "(cmat \<Rightarrow> real list \<times> cmat) \<Rightarrow> SystemState \<Rightarrow> error + SystemState" where
  "f_alg_inv eigh state =
     (if is_square (Q state) then
        (if length (Q state) = 2 ^ N_QUBITS then
           (let psi_loop =
                  foldl (\<lambda>psi target.
                           mat_vec (cnot_gate N_QUBITS 0 target)
                             (dominant_eigenvector eigh (Q state)))
                    (zeros (2 ^ N_QUBITS)) (rev [1..<N_QUBITS]);
                H_full = kron hadamard (eye (2 ^ (N_QUBITS - 1)));
                psi = mat_vec H_full psi_loop
            in Inr \<lparr> C = replicate N_BITS 0,
                     Q = outer psi (map cnj psi),
                     morphisms_applied = {},
                     points = None \<rparr>)
         else Inl ValueError)
      else Inl LinAlgError)"

text \<open>\<^verbatim>\<open>phi_closing_isomorphism\<close>: the four inverses, the first error ending the chain.\<close>

definition phi_closing_isomorphism ::
  "(cmat \<Rightarrow> cmat) \<Rightarrow> (cmat \<Rightarrow> real list \<times> cmat) \<Rightarrow> SystemState \<Rightarrow> error + SystemState" where
  "phi_closing_isomorphism expm eigh state =
     (let X_3_back = f_geom_inv state in
      case f_dyn_inv expm X_3_back of
        Inl e \<Rightarrow> Inl e
      | Inr X_2_back \<Rightarrow>
          (case f_info_inv eigh X_2_back of
             Inl e \<Rightarrow> Inl e
           | Inr X_1_back \<Rightarrow> f_alg_inv eigh X_1_back))"



section \<open>Void score\<close>

text \<open>\<open>np.mean\<close> of a boolean array, which is NaN on an empty array.\<close>

definition mean_bool :: "bool list \<Rightarrow> real option" where
  "mean_bool bs =
     (if bs = [] then None
      else Some (real (length (filter (\<lambda>b. b) bs)) / real (length bs)))"

text \<open>
  \<^verbatim>\<open>central_void_score\<close>, on an \<open>n \<times> 2\<close> array of points. The observed fraction is
  computed before the test on \<open>expected_frac\<close>; a NaN goes through the subtraction,
  the division and \<open>np.clip\<close> unchanged.
\<close>

definition central_void_score :: "(real \<times> real) list \<Rightarrow> real \<Rightarrow> real \<Rightarrow> real option" where
  "central_void_score pts a alpha =
     (let r = map (\<lambda>(x, y). sqrt (x\<^sup>2 + y\<^sup>2)) pts;
          r_0 = alpha * a;
          expected_frac = r_0\<^sup>2;
          observed_frac = mean_bool (map (\<lambda>ri. ri \<le> r_0) r)
      in if expected_frac = 0 then Some 0
         else (case observed_frac of
                 None \<Rightarrow> None
               | Some obs \<Rightarrow> Some (clip ((expected_frac - obs) / expected_frac) 0 1)))"

section \<open>Complexity pillars\<close>

text \<open>
  The eigenvalue routine \<open>np.linalg.eigvalsh\<close> belongs to numpy, not to the program: the
  pillars take it as the parameter \<open>eigvalsh\<close>, a function from a matrix to the list of
  its eigenvalues in ascending order.
\<close>

definition mean :: "real list \<Rightarrow> real" where
  "mean xs = sum_list xs / real (length xs)"

text \<open>\<open>np.std\<close>: the population standard deviation.\<close>

definition std :: "real list \<Rightarrow> real" where
  "std xs = sqrt (mean (map (\<lambda>x. (x - mean xs)\<^sup>2) xs))"

text \<open>\<open>np.sum(np.abs(np.diff(bits)))\<close>.\<close>

definition transitions_count :: "int list \<Rightarrow> int" where
  "transitions_count bits = sum_list (map2 (\<lambda>a b. \<bar>b - a\<bar>) bits (tl bits))"

text \<open>\<^verbatim>\<open>circuit_depth_proxy\<close>, after the check that \<open>rho @ rho\<close> makes.\<close>

definition circuit_depth_proxy :: "(cmat \<Rightarrow> real list) \<Rightarrow> cmat \<Rightarrow> nat \<Rightarrow> real" where
  "circuit_depth_proxy eigvalsh rho n_qubits =
     (let purity = Re (trace (matmul rho rho));
          eigenvalues = filter (\<lambda>e. e > 1 / 10 ^ 12) (eigvalsh rho);
          entropy = - sum_list (map (\<lambda>e. e * log 2 (e + 1 / 10 ^ 12)) eigenvalues);
          max_entropy = real n_qubits;
          entropy_normalized = entropy / max_entropy
      in 0.5 * (1 - purity) + 0.5 * entropy_normalized)"

text \<open>
  \<^verbatim>\<open>compute_C_alg\<close>. The Hamming fraction \<open>np.sum(C) / len(C)\<close> is NaN on an empty
  array and makes the result NaN; the quantum term is computed after it and raises on
  a matrix that is not square.
\<close>

definition compute_C_alg :: "(cmat \<Rightarrow> real list) \<Rightarrow> SystemState \<Rightarrow> error + real option" where
  "compute_C_alg eigvalsh state =
     (let bits = C state; rho = Q state in
      if is_square rho then
        (let circuit_proxy = circuit_depth_proxy eigvalsh rho N_QUBITS in
         if bits = [] then Inr None
         else
           (let hamming = real_of_int (sum_list bits) / real (length bits);
                pattern = (if length bits > 1
                           then real_of_int (transitions_count bits) / real (length bits - 1)
                           else 0);
                classical_complexity = 0.5 * hamming + 0.5 * pattern
            in Inr (Some (0.3 * classical_complexity + 0.7 * circuit_proxy))))
      else Inl ValueError)"

text \<open>\<^verbatim>\<open>compute_C_info\<close>: no division can give NaN here.\<close>

definition compute_C_info :: "(cmat \<Rightarrow> real list) \<Rightarrow> SystemState \<Rightarrow> error + real" where
  "compute_C_info eigvalsh state =
     (let bits = C state; rho = Q state;
          n_blocks = length bits div 2;
          syndrome_complexity =
            (if n_blocks > 0 then
               (let parities = map (\<lambda>i. sum_list (take 2 (drop (2 * i) bits)) mod 2) [0..<n_blocks];
                    parity_balance = 2 * \<bar>mean (map real_of_int parities) - 0.5\<bar>
                in 1 - parity_balance)
             else 0)
      in if is_square rho then
           (let purity = Re (trace (matmul rho rho));
                mixedness = 1 - purity;
                eigenvals = eigvalsh rho;
                rank = length (filter (\<lambda>e. e > 1 / 10 ^ 10) eigenvals);
                rank_normalized = (if length eigenvals > 1
                                   then (real rank - 1) / (real (length eigenvals) - 1)
                                   else 0)
            in Inr (0.3 * syndrome_complexity + 0.5 * mixedness + 0.2 * rank_normalized))
         else Inl ValueError)"

text \<open>
  \<^verbatim>\<open>compute_bit_mixing_score\<close>. With fewer than two bits a quotient is 0/0 and the
  score is NaN. The 2-bit blocks start at the even positions below \<open>n - 1\<close>; the
  dictionary of block counts is the list of distinct blocks with their multiplicities.
\<close>

definition hamming_fraction :: "int list \<Rightarrow> int list \<Rightarrow> real" where
  "hamming_fraction bits pattern =
     real (length (filter (\<lambda>(b, p). b \<noteq> p) (zip bits pattern))) / real (length bits)"

definition block_counts :: "int list \<Rightarrow> nat list" where
  "block_counts bits =
     (let blocks = map (\<lambda>i. take 2 (drop i bits)) (filter even [0..<length bits - 1])
      in map (count_list blocks) (remdups blocks))"

definition compute_bit_mixing_score :: "int list \<Rightarrow> real option" where
  "compute_bit_mixing_score bits =
     (let n = length bits in
      if n \<le> 1 then None
      else
        (let transitions = real_of_int (transitions_count bits) / real (n - 1);
             dist_0 = hamming_fraction bits (replicate n 0);
             dist_1 = hamming_fraction bits (replicate n 1);
             dist_alt = hamming_fraction bits (map (\<lambda>i. int (i mod 2)) [0..<n]);
             pattern_distance = min (min dist_0 dist_1) dist_alt;
             counts = block_counts bits;
             total_blocks = sum_list counts;
             block_entropy_norm =
               (if total_blocks > 0 then
                  (let probs = map (\<lambda>c. real c / real total_blocks) counts;
                       block_entropy = - sum_list (map (\<lambda>p. p * log 2 (p + 1 / 10 ^ 12)) probs)
                   in block_entropy / 2)
                else 0);
             mixing_score = 0.3 * transitions + 0.4 * pattern_distance + 0.3 * block_entropy_norm
         in Some (clip mixing_score 0 1)))"

text \<open>
  \<^verbatim>\<open>compute_C_dyn\<close> reads \<open>C\<close> and \<open>Q\<close> only. \<open>eigvalsh\<close> raises on a matrix that is not
  square; a NaN mixing score makes the result NaN.
\<close>

definition compute_C_dyn :: "(cmat \<Rightarrow> real list) \<Rightarrow> SystemState \<Rightarrow> error + real option" where
  "compute_C_dyn eigvalsh state =
     (let mixing_score = compute_bit_mixing_score (C state) in
      if is_square (Q state) then
        (let eigenvals = filter (\<lambda>e. e > 1 / 10 ^ 12) (eigvalsh (Q state));
             eigenvalue_spread =
               (if length eigenvals > 1
                then clip (std eigenvals / (mean eigenvals + 1 / 10 ^ 12)) 0 1
                else 0)
         in case mixing_score of
              None \<Rightarrow> Inr None
            | Some m \<Rightarrow> Inr (Some (0.7 * m + 0.3 * eigenvalue_spread)))
      else Inl LinAlgError)"

section \<open>Reference objects of the specification\<close>

text \<open>
  The GHZ state as the specification's glossary defines it, \<open>(|000\<rangle> + |111\<rangle>)/\<surd>2\<close>, as
  a density matrix: the amplitudes \<open>1/\<surd>2\<close> sit at the basis indices 0 and 7. It is
  written from the specification, to be compared with what \<open>prepare_ghz_state\<close> builds.
\<close>

definition spec_ghz_density :: cmat where
  "spec_ghz_density =
     (let h = 1 / complex_of_real (sqrt 2);
          psi = [h, 0, 0, 0, 0, 0, 0, h]
      in outer psi (map cnj psi))"

text \<open>The one-qubit density matrices \<open>|+\<rangle>\<langle>+|\<close> and \<open>|0\<rangle>\<langle>0|\<close>.\<close>

definition plus_density :: cmat where
  "plus_density = [[1 / 2, 1 / 2], [1 / 2, 1 / 2]]"

definition zero_density :: cmat where
  "zero_density = [[1, 0], [0, 0]]"

text \<open>A state whose classical component has nine bits and whose quantum component is the origin's.\<close>

definition nine_bit_state :: SystemState where
  "nine_bit_state = initial_state\<lparr>C := replicate 9 0\<rparr>"

definition three_bit_state :: SystemState where
  "three_bit_state = initial_state\<lparr>C := [0, 0, 0]\<rparr>"

definition no_qubit_state :: SystemState where
  "no_qubit_state = initial_state\<lparr>Q := [[1]]\<rparr>"

section \<open>Contracts of the numerical library and validity of states\<close>

text \<open>
  \<^verbatim>\<open>scipy.linalg.expm\<close> is outside the source, so the evolution takes it as a
  parameter. What the proofs use of it is stated here: for a Hermitian \<open>H\<close>, the
  matrices \<open>expm (-i\<tau>H)\<close> and \<open>expm (+i\<tau>H)\<close> are 8 by 8, inverse to each other, and
  the second is the adjoint of the first. The contract asks this of the two
  Hamiltonians the code exponentiates, the Ising term and the kick term.
\<close>

definition expm_unitary_pair :: "(cmat \<Rightarrow> cmat) \<Rightarrow> cmat \<Rightarrow> bool" where
  "expm_unitary_pair expm H =
     (let U_minus = expm (mat_scale (complex_of_real TAU) (mat_scale (- \<i>) H));
          U_plus = expm (mat_scale (complex_of_real TAU) (mat_scale \<i> H))
      in is_mat 8 8 U_minus \<and> is_mat 8 8 U_plus
         \<and> matmul U_plus U_minus = eye 8 \<and> matmul U_minus U_plus = eye 8
         \<and> dagger U_minus = U_plus)"

definition expm_contract :: "(cmat \<Rightarrow> cmat) \<Rightarrow> bool" where
  "expm_contract expm =
     (expm_unitary_pair expm (ising_hamiltonian N_QUBITS J_ISING)
      \<and> expm_unitary_pair expm (kick_hamiltonian N_QUBITS H_KICK))"

text \<open>
  The one-period operator \<^verbatim>\<open>U_floquet = U_ising @ U_kick\<close> of
  \<^verbatim>\<open>kicked_ising_evolution\<close> and the operator \<^verbatim>\<open>U_kick_dag @ U_ising_dag\<close> that
  \<^verbatim>\<open>f_dyn_inv\<close> builds, both at the constants of the module.
\<close>

definition U_floquet :: "(cmat \<Rightarrow> cmat) \<Rightarrow> cmat" where
  "U_floquet expm =
     matmul (expm (mat_scale (complex_of_real TAU) (mat_scale (- \<i>) (ising_hamiltonian N_QUBITS J_ISING))))
            (expm (mat_scale (complex_of_real TAU) (mat_scale (- \<i>) (kick_hamiltonian N_QUBITS H_KICK))))"

definition U_floquet_dag :: "(cmat \<Rightarrow> cmat) \<Rightarrow> cmat" where
  "U_floquet_dag expm =
     matmul (expm (mat_scale (complex_of_real TAU) (mat_scale \<i> (kick_hamiltonian N_QUBITS H_KICK))))
            (expm (mat_scale (complex_of_real TAU) (mat_scale \<i> (ising_hamiltonian N_QUBITS J_ISING))))"

text \<open>
  A closed form of the matrix exponential on the two arguments the code passes
  to it: a diagonal matrix is exponentiated entry by entry, and
  \<open>-i\<tau>h (X\<otimes>I\<otimes>I + I\<otimes>X\<otimes>I + I\<otimes>I\<otimes>X)\<close> gives the threefold Kronecker product of
  \<open>cos \<theta> I + i sin \<theta> X\<close> with \<open>\<theta> = -\<tau>h\<close>, read off the entry \<open>(0, 1)\<close>. It shows that
  \<open>expm_contract\<close> can be met.
\<close>

definition diag_exp :: "cmat \<Rightarrow> cmat" where
  "diag_exp A =
     map (\<lambda>i. map (\<lambda>j. if i = j then exp (A ! i ! i) else 0) [0..<length A]) [0..<length A]"

definition rotation_X :: "real \<Rightarrow> cmat" where
  "rotation_X theta =
     [[complex_of_real (cos theta), \<i> * complex_of_real (sin theta)],
      [\<i> * complex_of_real (sin theta), complex_of_real (cos theta)]]"

definition kick_exp :: "real \<Rightarrow> cmat" where
  "kick_exp theta = kron (rotation_X theta) (kron (rotation_X theta) (rotation_X theta))"

definition expm_closed_form :: "cmat \<Rightarrow> cmat" where
  "expm_closed_form A = (if A ! 0 ! 1 = 0 then diag_exp A else kick_exp (Im (A ! 0 ! 1)))"

text \<open>
  Validity of a quantum component, in exact arithmetic: an 8 by 8 matrix that is
  Hermitian, has trace 1 and is positive semi-definite (\<open>\<langle>v, M v\<rangle> \<ge> 0\<close> for every
  vector \<open>v\<close>). \<open>inner\<close> is \<^verbatim>\<open>np.vdot\<close>, conjugate-linear in its first argument.
\<close>

definition inner :: "cvec \<Rightarrow> cvec \<Rightarrow> complex" where
  "inner u v = dot (map cnj u) v"

definition hermitian :: "cmat \<Rightarrow> bool" where
  "hermitian M = (dagger M = M)"

definition psd :: "cmat \<Rightarrow> bool" where
  "psd M = (\<forall>v. length v = length M \<longrightarrow> 0 \<le> Re (inner v (mat_vec M v)))"

definition valid_density :: "cmat \<Rightarrow> bool" where
  "valid_density M = (is_mat 8 8 M \<and> hermitian M \<and> trace M = 1 \<and> psd M)"

text \<open>
  The invariant as the specification words it: Hermitian, trace within \<open>1e-6\<close> of 1,
  and no eigenvalue below \<open>-1e-8\<close>. An eigenvalue is a real \<open>lam\<close> with a nonzero vector
  \<open>v\<close> such that \<open>M v = lam v\<close>; the definition does not go through a numerical solver.
\<close>

definition eigenpair :: "cmat \<Rightarrow> real \<Rightarrow> cvec \<Rightarrow> bool" where
  "eigenpair M lam v =
     (length v = length M \<and> v \<noteq> replicate (length M) 0
      \<and> mat_vec M v = map (\<lambda>x. complex_of_real lam * x) v)"

definition valid_within_tolerance :: "cmat \<Rightarrow> bool" where
  "valid_within_tolerance M =
     (hermitian M \<and> cmod (trace M - 1) \<le> 1 / 10 ^ 6
      \<and> (\<forall>lam v. eigenpair M lam v \<longrightarrow> - (1 / 10 ^ 8) \<le> lam))"

text \<open>
  \<open>produces_valid r\<close>: the call returned a state, and its quantum component is a
  valid density matrix (exactly, and so within the tolerances too).
\<close>

definition produces_valid :: "error + SystemState \<Rightarrow> bool" where
  "produces_valid r =
     (case r of Inl e \<Rightarrow> False
      | Inr X \<Rightarrow> valid_density (Q X) \<and> valid_within_tolerance (Q X))"

text \<open>
  What the validity proofs use of \<^verbatim>\<open>np.linalg.eigh\<close>: on an 8 by 8 matrix, the column
  it returns for the largest eigenvalue has 8 entries and norm 1.
\<close>

definition eigh_normalized :: "(cmat \<Rightarrow> real list \<times> cmat) \<Rightarrow> bool" where
  "eigh_normalized eigh =
     (\<forall>M. is_mat 8 8 M \<longrightarrow>
        length (dominant_eigenvector eigh M) = 8
        \<and> inner (dominant_eigenvector eigh M) (dominant_eigenvector eigh M) = 1)"

text \<open>The state vector \<open>(|000\<rangle> + |100\<rangle>)/\<surd>2\<close> that \<^verbatim>\<open>prepare_ghz_state(3)\<close> builds.\<close>

definition plus_zero_zero :: cvec where
  "plus_zero_zero =
     [1 / complex_of_real (sqrt 2), 0, 0, 0, 1 / complex_of_real (sqrt 2), 0, 0, 0]"

text \<open>
  What the round trip uses of \<^verbatim>\<open>np.linalg.eigh\<close> on a matrix \<open>M\<close>: the eigenvalues
  \<open>w\<close> come in ascending order, the matrix \<open>V\<close> of eigenvectors is unitary, and
  \<open>M V = V diag(w)\<close>, column \<open>j\<close> of \<open>V\<close> being an eigenvector for \<open>w[j]\<close>.
\<close>

definition diag_mat :: "real list \<Rightarrow> cmat" where
  "diag_mat w =
     map (\<lambda>i. map (\<lambda>j. if i = j then complex_of_real (w ! i) else 0) [0..<length w]) [0..<length w]"

definition eigh_contract :: "(cmat \<Rightarrow> real list \<times> cmat) \<Rightarrow> cmat \<Rightarrow> bool" where
  "eigh_contract eigh M =
     (case eigh M of (w, V) \<Rightarrow>
        length w = 8 \<and> sorted w \<and> is_mat 8 8 V
        \<and> matmul (dagger V) V = eye 8 \<and> matmul V (dagger V) = eye 8
        \<and> matmul M V = matmul V (diag_mat w))"

text \<open>
  The normalized trace overlap of \<^verbatim>\<open>test_phi_roundtrip\<close>:
  \<open>|Tr(A B)| / (\<surd>Tr(A A) \<cdot> \<surd>Tr(B B))\<close>; \<^verbatim>\<open>np.sqrt\<close> of a complex number is the principal
  square root.
\<close>

definition trace_overlap :: "cmat \<Rightarrow> cmat \<Rightarrow> complex" where
  "trace_overlap A B =
     (let overlap = cmod (trace (matmul A B));
          norm_0 = csqrt (trace (matmul A A));
          norm_back = csqrt (trace (matmul B B))
      in complex_of_real overlap / (norm_0 * norm_back))"

text \<open>
  An eigensolver in closed form for the matrices \<open>a \<cdot> |\<psi>\<rangle>\<langle>\<psi>| + b \<cdot> I\<close> with
  \<open>\<psi> = (|000\<rangle> + |100\<rangle>)/\<surd>2\<close> and \<open>a \<ge> 0\<close>, the only ones the cycle from the origin
  passes to \<^verbatim>\<open>np.linalg.eigh\<close>: the eigenvalue \<open>b\<close> seven times, with the basis
  vectors \<open>e\<^sub>1, e\<^sub>2, e\<^sub>3, e\<^sub>5, e\<^sub>6, e\<^sub>7\<close> and \<open>(e\<^sub>0 - e\<^sub>4)/\<surd>2\<close>, then \<open>a + b\<close> with \<open>\<psi>\<close>. It
  shows that \<open>eigh_contract\<close> can be met on these matrices and \<open>eigh_normalized\<close>
  on all.
\<close>

definition plus_basis :: cmat where
  "plus_basis =
     (let h = 1 / complex_of_real (sqrt 2)
      in [[0,0,0,0,0,0,h,h], [1,0,0,0,0,0,0,0], [0,1,0,0,0,0,0,0], [0,0,1,0,0,0,0,0],
          [0,0,0,0,0,0,-h,h], [0,0,0,1,0,0,0,0], [0,0,0,0,1,0,0,0], [0,0,0,0,0,1,0,0]])"

definition eigh_closed_form :: "cmat \<Rightarrow> real list \<times> cmat" where
  "eigh_closed_form M =
     (let b = Re (M ! 1 ! 1);
          t = Re (M ! 0 ! 0 + M ! 0 ! 4)
      in ([b, b, b, b, b, b, b, t], plus_basis))"

text \<open>
  \<open>valid_when_produced r\<close>: if the call returned a state, its quantum component is
  valid; a call that raised produced no state.
\<close>

definition valid_when_produced :: "error + SystemState \<Rightarrow> bool" where
  "valid_when_produced r =
     (case r of Inl e \<Rightarrow> True
      | Inr X \<Rightarrow> valid_density (Q X) \<and> valid_within_tolerance (Q X))"

section \<open>Evaluation lemmas\<close>

lemma upt_0_3: "[0..<3] = [0, 1, 2]"
  by code_simp

lemma upt_0_4: "[0..<4] = [0, 1, 2, 3]"
  by code_simp

lemma upt_0_8: "[0..<8] = [0, 1, 2, 3, 4, 5, 6, 7]"
  by code_simp

lemma upt_1_3: "[1..<3] = [1, 2]"
  by code_simp

lemma zeros_8: "zeros 8 = [0, 0, 0, 0, 0, 0, 0, 0]"
  by (simp add: zeros_def eval_nat_numeral)

lemma cnot_0_1:
  "cnot_gate 3 0 1 =
     [[1,0,0,0,0,0,0,0], [0,0,0,1,0,0,0,0], [0,0,1,0,0,0,0,0], [0,1,0,0,0,0,0,0],
      [0,0,0,0,1,0,0,0], [0,0,0,0,0,0,0,1], [0,0,0,0,0,0,1,0], [0,0,0,0,0,1,0,0]]"
  by code_simp

lemma cnot_0_2:
  "cnot_gate 3 0 2 =
     [[1,0,0,0,0,0,0,0], [0,0,0,0,0,1,0,0], [0,0,1,0,0,0,0,0], [0,0,0,0,0,0,0,1],
      [0,0,0,0,1,0,0,0], [0,1,0,0,0,0,0,0], [0,0,0,0,0,0,1,0], [0,0,0,1,0,0,0,0]]"
  by code_simp

lemma hadamard_on_zero:
  "mat_vec (kron hadamard (eye 4)) ((zeros 8)[0 := 1]) =
     [1 / complex_of_real (sqrt 2), 0, 0, 0, 1 / complex_of_real (sqrt 2), 0, 0, 0]"
  by (simp add: zeros_8 kron_def hadamard_def eye_def mat_vec_def dot_def upt_0_4)

lemma cnots_after_hadamard:
  "foldl (\<lambda>psi target. mat_vec (cnot_gate 3 0 target) psi)
     [1 / complex_of_real (sqrt 2), 0, 0, 0, 1 / complex_of_real (sqrt 2), 0, 0, 0] [1..<3] =
     [1 / complex_of_real (sqrt 2), 0, 0, 0, 1 / complex_of_real (sqrt 2), 0, 0, 0]"
  unfolding upt_1_3 foldl.simps cnot_0_1 cnot_0_2 by (simp add: mat_vec_def dot_def)

lemma prepare_ghz_state_3:
  "prepare_ghz_state 3 =
     [[1/2,0,0,0,1/2,0,0,0], [0,0,0,0,0,0,0,0], [0,0,0,0,0,0,0,0], [0,0,0,0,0,0,0,0],
      [1/2,0,0,0,1/2,0,0,0], [0,0,0,0,0,0,0,0], [0,0,0,0,0,0,0,0], [0,0,0,0,0,0,0,0]]"
proof -
  have d: "(2::nat) ^ 3 = 8" "(2::nat) ^ (3 - 1) = 4" by simp_all
  show ?thesis
    unfolding prepare_ghz_state_def Let_def d hadamard_on_zero cnots_after_hadamard
    by (simp add: outer_def flip: of_real_mult)
qed

lemma spec_ghz_density_value:
  "spec_ghz_density =
     [[1/2,0,0,0,0,0,0,1/2], [0,0,0,0,0,0,0,0], [0,0,0,0,0,0,0,0], [0,0,0,0,0,0,0,0],
      [0,0,0,0,0,0,0,0], [0,0,0,0,0,0,0,0], [0,0,0,0,0,0,0,0], [1/2,0,0,0,0,0,0,1/2]]"
  by (simp add: spec_ghz_density_def Let_def outer_def flip: of_real_mult)

lemma prg_expand_seed: "prg_expand PRG_SEED N_BITS = [0, 1, 1, 0, 1, 1, 0, 1]"
  by (simp add: prg_expand_def PRG_SEED_def N_BITS_def lfsr_step_def eval_nat_numeral)

lemma initial_state_C: "C initial_state = [0, 0, 0, 0, 0, 0, 0, 0]"
  by (simp add: initial_state_def N_BITS_def eval_nat_numeral)

lemma initial_state_Q:
  "Q initial_state =
     [[1,0,0,0,0,0,0,0], [0,0,0,0,0,0,0,0], [0,0,0,0,0,0,0,0], [0,0,0,0,0,0,0,0],
      [0,0,0,0,0,0,0,0], [0,0,0,0,0,0,0,0], [0,0,0,0,0,0,0,0], [0,0,0,0,0,0,0,0]]"
  by (simp add: initial_state_def DIM_HILBERT_def N_QUBITS_def upt_0_8 zeros_def eval_nat_numeral)

lemma projector_0:
  "projector_single_qubit 3 0 0 =
     [[1,0,0,0,0,0,0,0], [0,0,0,0,0,0,0,0], [0,0,1,0,0,0,0,0], [0,0,0,0,0,0,0,0],
      [0,0,0,0,1,0,0,0], [0,0,0,0,0,0,0,0], [0,0,0,0,0,0,1,0], [0,0,0,0,0,0,0,0]]"
  by (simp add: projector_single_qubit_def qubit_bits_def upt_0_8 upt_0_3)

lemma projector_1:
  "projector_single_qubit 3 0 1 =
     [[0,0,0,0,0,0,0,0], [0,1,0,0,0,0,0,0], [0,0,0,0,0,0,0,0], [0,0,0,1,0,0,0,0],
      [0,0,0,0,0,0,0,0], [0,0,0,0,0,1,0,0], [0,0,0,0,0,0,0,0], [0,0,0,0,0,0,0,1]]"
  by (simp add: projector_single_qubit_def qubit_bits_def upt_0_8 upt_0_3)

lemmas eval_matrix =
  Let_def is_mat_def matmul_def ncols_def column_def dot_def upt_0_8 trace_def
  mat_add_def mat_scale_def eye_def

lemma measure_initial_state:
  "measure_qubit u (Q initial_state) 0 3 =
     Inr (if u < 1 then 0 else 1,
       [[73/80,0,0,0,0,0,0,0], [0,1/80,0,0,0,0,0,0], [0,0,1/80,0,0,0,0,0], [0,0,0,1/80,0,0,0,0],
        [0,0,0,0,1/80,0,0,0], [0,0,0,0,0,1/80,0,0], [0,0,0,0,0,0,1/80,0], [0,0,0,0,0,0,0,1/80]])"
  unfolding initial_state_Q measure_qubit_def projector_0 projector_1
  by (simp add: eval_matrix)

section \<open>The bit-mixing transform is not injective\<close>

text \<open>
  Claim C5. The claim: \<open>arnold_cat_map_bits\<close> is a bijection on the 8-bit vectors, distinct
  inputs giving distinct outputs. The code: the fold \<open>x ^= rot4(x)\<close> makes both nibbles
  equal and loses four bits in every round, and what is mixed back from the original does
  not restore them. The all-zero vector and the vector of the integer 68 (bits 2 and 6
  set) are both sent to \<open>[0,1,0,1,0,1,0,1]\<close>, the vector of \<open>0b10101010\<close>.
\<close>

theorem arnold_cat_map_bits_collision:
  "arnold_cat_map_bits [0, 0, 0, 0, 0, 0, 0, 0] = [0, 1, 0, 1, 0, 1, 0, 1]
   \<and> arnold_cat_map_bits [0, 0, 1, 0, 0, 0, 1, 0] = [0, 1, 0, 1, 0, 1, 0, 1]"
  by code_simp

section \<open>f_alg depends on its input through the provenance labels only\<close>

text \<open>
  Claim C10. For any two input states the outputs of \<open>morphism_1_circuit_compilation\<close>
  have the same classical component, the LFSR expansion \<open>[0,1,1,0,1,1,0,1]\<close> of the seed
  \<open>[0,1,1,0]\<close>, and the same quantum component, the state that \<open>prepare_ghz_state 3\<close>
  builds; the label set of the output is the input's with \<open>f_alg\<close> added.
\<close>

theorem f_alg_ignores_input:
  "C (morphism_1_circuit_compilation s1) = C (morphism_1_circuit_compilation s2)
   \<and> Q (morphism_1_circuit_compilation s1) = Q (morphism_1_circuit_compilation s2)
   \<and> C (morphism_1_circuit_compilation s1) = prg_expand [0, 1, 1, 0] 8
   \<and> C (morphism_1_circuit_compilation s1) = [0, 1, 1, 0, 1, 1, 0, 1]
   \<and> Q (morphism_1_circuit_compilation s1) = prepare_ghz_state 3
   \<and> morphisms_applied (morphism_1_circuit_compilation s1) = insert ''f_alg'' (morphisms_applied s1)"
  using prg_expand_seed
  by (simp add: morphism_1_circuit_compilation_def PRG_SEED_def N_BITS_def N_QUBITS_def)

section \<open>The prepared state is a product state\<close>

text \<open>
  Claim C2. The claim: \<open>prepare_ghz_state 3\<close> returns the density matrix of the GHZ state
  \<open>(|000\<rangle> + |111\<rangle>)/\<surd>2\<close>, an entangled state. The code: \<open>np.kron(H, np.eye(4))\<close> puts the
  Hadamard on the most significant bit of the basis index, while \<open>cnot_gate\<close> reads
  qubit 0 as the least significant bit. After the Hadamard the state is
  \<open>(e\<^sub>0 + e\<^sub>4)/\<surd>2\<close>; the control bit of both indices is 0, so neither CNOT moves
  anything. The result is the product state \<open>|+\<rangle>\<langle>+| \<otimes> |0\<rangle>\<langle>0| \<otimes> |0\<rangle>\<langle>0|\<close>, whose entry
  \<open>(0, 7)\<close> is 0 where the GHZ state has 1/2.
\<close>

theorem prepare_ghz_state_is_product:
  "prepare_ghz_state N_QUBITS = kron plus_density (kron zero_density zero_density)
   \<and> prepare_ghz_state N_QUBITS \<noteq> spec_ghz_density
   \<and> prepare_ghz_state N_QUBITS ! 0 ! 7 = 0
   \<and> spec_ghz_density ! 0 ! 7 = 1 / 2"
  unfolding N_QUBITS_def prepare_ghz_state_3 spec_ghz_density_value
  by (simp add: kron_def plus_density_def zero_density_def)

section \<open>The void score of an empty cloud\<close>

text \<open>
  Claim C9. The claim: on an empty cloud and on a cloud of identical points the void score
  is a defined number in \<open>[0, 1]\<close>. The code: on the empty cloud \<open>np.mean\<close> of an empty
  array is NaN, the guard \<open>expected_frac == 0\<close> does not apply (\<open>(0.8 \<cdot> 0.68)\<^sup>2 > 0\<close>) and
  the NaN is returned. On a non-empty cloud, identical points or not, the score is a
  number in \<open>[0, 1]\<close>.
\<close>

theorem central_void_score_empty:
  "central_void_score [] A_PARAM 0.8 = None"
  by (simp add: central_void_score_def mean_bool_def A_PARAM_def)

lemma central_void_score_nonempty:
  "pts \<noteq> [] \<Longrightarrow> \<exists>s. central_void_score pts a alpha = Some s \<and> 0 \<le> s \<and> s \<le> 1"
  by (simp add: central_void_score_def mean_bool_def clip_def Let_def)

section \<open>C_dyn does not read the provenance labels\<close>

text \<open>
  Claim C6. For every state and every label set, \<open>compute_C_dyn\<close> on the state carrying
  that label set returns what it returns on the state with the empty label set (the
  same number, the same NaN or the same error): the two results are equal, so they
  differ by less than \<open>1e-9\<close>.
\<close>

theorem C_dyn_ignores_provenance:
  "compute_C_dyn eigvalsh (st\<lparr>morphisms_applied := tags\<rparr>) =
   compute_C_dyn eigvalsh (st\<lparr>morphisms_applied := {}\<rparr>)"
  by (simp add: compute_C_dyn_def)

section \<open>C_alg is negative at the origin state\<close>

text \<open>
  Claim C4. The claim: every pillar value lies in \<open>[0, 1]\<close>. The code: at the origin
  state, whose quantum component \<open>|000\<rangle>\<langle>000|\<close> has the eigenvalues \<open>0\<close> (seven times)
  and \<open>1\<close>, the purity is 1 and the entropy term is \<open>-(1 \<cdot> log\<^sub>2 (1 + 1e-12))\<close>, which is
  negative; the classical term is 0 and nothing clips the sum, so \<open>compute_C_alg\<close>
  returns \<open>-(7/60) \<cdot> log\<^sub>2 (1 + 1e-12) < 0\<close>.
\<close>

theorem C_alg_negative_at_origin:
  assumes "eigvalsh (Q initial_state) = [0, 0, 0, 0, 0, 0, 0, 1]"
  shows "compute_C_alg eigvalsh initial_state = Inr (Some (- (7 / 60) * log 2 (1 + 1 / 10 ^ 12)))
         \<and> - (7 / 60) * log 2 (1 + 1 / 10 ^ 12) < (0::real)"
  using assms unfolding compute_C_alg_def circuit_depth_proxy_def initial_state_C
  unfolding initial_state_Q
  by (simp add: eval_matrix is_square_def transitions_count_def N_QUBITS_def)

theorem C_alg_negative_at_origin_witness:
  "compute_C_alg (\<lambda>M. [0, 0, 0, 0, 0, 0, 0, 1]) initial_state =
     Inr (Some (- (7 / 60) * log 2 (1 + 1 / 10 ^ 12)))
   \<and> - (7 / 60) * log 2 (1 + 1 / 10 ^ 12) < (0::real)"
  using C_alg_negative_at_origin [of "\<lambda>M. [0, 0, 0, 0, 0, 0, 0, 1]"] by simp

section \<open>No dimension check in f_info and C_info\<close>

lemma measure_qubit_errors:
  "measure_qubit u rho k n \<noteq> Inl DimensionMismatch"
  "measure_qubit u rho k n \<noteq> Inl IndexError"
  "\<not> is_mat (2 ^ n) (2 ^ n) rho \<Longrightarrow> measure_qubit u rho k n = Inl ValueError"
  by (auto simp: measure_qubit_def Let_def)

lemma encode_syndromes_ok:
  "2 * (i + length syns) \<le> length C_2 + 1 \<Longrightarrow>
     \<exists>C'. encode_syndromes C_2 i syns = Inr C' \<and> length C' = length C_2"
proof (induction syns arbitrary: C_2 i)
  case Nil
  then show ?case by simp
next
  case (Cons syn rest)
  let ?D = "C_2[2 * i := (C_2 ! (2 * i) + syn) mod 2]"
  from Cons.prems have inb: "2 * i < length C_2" by simp
  from Cons.prems have "2 * (Suc i + length rest) \<le> length ?D + 1" by simp
  from Cons.IH [OF this] obtain C' where
    "encode_syndromes ?D (Suc i) rest = Inr C'" "length C' = length ?D" by blast
  with inb show ?case by simp
qed

lemma encode_syndromes_fail:
  "syns \<noteq> [] \<Longrightarrow> length C_2 + 1 < 2 * (i + length syns) \<Longrightarrow>
     encode_syndromes C_2 i syns = Inl IndexError"
proof (induction syns arbitrary: C_2 i)
  case Nil
  then show ?case by simp
next
  case (Cons syn rest)
  show ?case
  proof (cases "rest = []")
    case True
    with Cons.prems show ?thesis by auto
  next
    case False
    with Cons show ?thesis by auto
  qed
qed

lemma f_info_unfold:
  "morphism_2_syndrome_encoding u st =
     (case encode_syndromes (C st) 0 (map parity (syndrome_blocks (C st))) of
           Inl e \<Rightarrow> Inl e
         | Inr C_2 \<Rightarrow>
             (case measure_qubit u (Q st) 0 N_QUBITS of
                Inl e \<Rightarrow> Inl e
              | Inr (outcome, Q_2) \<Rightarrow>
                  Inr \<lparr> C = C_2[0 := outcome], Q = Q_2,
                        morphisms_applied = insert ''f_info'' (morphisms_applied st),
                        points = None \<rparr>))"
  by (simp add: morphism_2_syndrome_encoding_def Let_def)

lemma f_info_short:
  assumes "length (C st) < 7"
  shows "morphism_2_syndrome_encoding u st = Inl IndexError"
proof -
  have "encode_syndromes (C st) 0 (map parity (syndrome_blocks (C st))) = Inl IndexError"
    using assms by (intro encode_syndromes_fail) (simp_all add: syndrome_blocks_def)
  then show ?thesis by (simp add: f_info_unfold)
qed

lemma f_info_long:
  assumes "7 \<le> length (C st)"
  shows "\<exists>C_2. length C_2 = length (C st) \<and>
     morphism_2_syndrome_encoding u st =
       (case measure_qubit u (Q st) 0 N_QUBITS of
          Inl e \<Rightarrow> Inl e
        | Inr (outcome, Q_2) \<Rightarrow>
            Inr \<lparr> C = C_2[0 := outcome], Q = Q_2,
                  morphisms_applied = insert ''f_info'' (morphisms_applied st),
                  points = None \<rparr>)"
proof -
  have "2 * (0 + length (map parity (syndrome_blocks (C st)))) \<le> length (C st) + 1"
    using assms by (simp add: syndrome_blocks_def)
  from encode_syndromes_ok [OF this] obtain C' where
    "encode_syndromes (C st) 0 (map parity (syndrome_blocks (C st))) = Inr C'"
    "length C' = length (C st)" by blast
  then show ?thesis by (intro exI [of _ C']) (simp add: f_info_unfold)
qed


lemma f_info_never_dimension_mismatch:
  "morphism_2_syndrome_encoding u st \<noteq> Inl DimensionMismatch"
proof (cases "length (C st) < 7")
  case True
  then show ?thesis by (simp add: f_info_short)
next
  case False
  then have "7 \<le> length (C st)" by simp
  from f_info_long [OF this, of u] obtain C_2 where
    eq: "morphism_2_syndrome_encoding u st =
       (case measure_qubit u (Q st) 0 N_QUBITS of
          Inl e \<Rightarrow> Inl e
        | Inr (outcome, Q_2) \<Rightarrow>
            Inr \<lparr> C = C_2[0 := outcome], Q = Q_2,
                  morphisms_applied = insert ''f_info'' (morphisms_applied st),
                  points = None \<rparr>)" by blast
  show ?thesis
  proof (cases "measure_qubit u (Q st) 0 N_QUBITS")
    case (Inl e)
    then have "e \<noteq> DimensionMismatch" using measure_qubit_errors(1) [of u "Q st" 0 N_QUBITS] by auto
    with Inl eq show ?thesis by simp
  next
    case (Inr r)
    with eq show ?thesis by (cases r) simp
  qed
qed

lemma f_info_bad_matrix:
  assumes "7 \<le> length (C st)" "\<not> is_mat 8 8 (Q st)"
  shows "morphism_2_syndrome_encoding u st = Inl ValueError"
proof -
  have "measure_qubit u (Q st) 0 N_QUBITS = Inl ValueError"
    using measure_qubit_errors(3) [of N_QUBITS "Q st" u 0] assms(2) by (simp add: N_QUBITS_def)
  with f_info_long [OF assms(1), of u] show ?thesis by auto
qed

lemma f_info_accepts:
  assumes "7 \<le> length (C st)" "measure_qubit u (Q st) 0 N_QUBITS = Inr (outcome, Q_2)"
  shows "\<exists>C_2. length C_2 = length (C st) \<and>
           morphism_2_syndrome_encoding u st =
             Inr \<lparr> C = C_2, Q = Q_2,
                   morphisms_applied = insert ''f_info'' (morphisms_applied st),
                   points = None \<rparr>"
proof -
  from f_info_long [OF assms(1), of u] obtain C' where
    "length C' = length (C st)"
    "morphism_2_syndrome_encoding u st =
       Inr \<lparr> C = C'[0 := outcome], Q = Q_2,
             morphisms_applied = insert ''f_info'' (morphisms_applied st),
             points = None \<rparr>"
    using assms(2) by auto
  then show ?thesis by (intro exI [of _ "C'[0 := outcome]"]) simp
qed

lemma C_info_errors:
  "compute_C_info eigvalsh st \<noteq> Inl DimensionMismatch"
  "is_square (Q st) \<Longrightarrow> \<exists>v. compute_C_info eigvalsh st = Inr v"
  "\<not> is_square (Q st) \<Longrightarrow> compute_C_info eigvalsh st = Inl ValueError"
  by (simp_all add: compute_C_info_def Let_def)

lemma nine_bit_state_fields:
  "Q nine_bit_state = Q initial_state"
  "C nine_bit_state = [0, 0, 0, 0, 0, 0, 0, 0, 0]"
  "morphisms_applied nine_bit_state = {}"
  by (simp_all add: nine_bit_state_def initial_state_def eval_nat_numeral)

lemma encode_nine:
  "encode_syndromes [0, 0, 0, 0, 0, 0, 0, 0, 0] 0 (map parity (syndrome_blocks [0, 0, 0, 0, 0, 0, 0, 0, 0]))
     = Inr [0, 0, 0, 0, 0, 0, 0, 0, 0]"
  by (simp add: syndrome_blocks_def parity_def eval_nat_numeral)

text \<open>
  Claim C8, as stated: a state whose classical length is not 8 is rejected with
  \<open>DimensionMismatch\<close>. It fails on \<open>morphism_2_syndrome_encoding\<close>: the state with nine
  classical bits and the origin's quantum component is accepted and a result computed.
\<close>

theorem f_info_counterexample:
  "length (C nine_bit_state) = 9
   \<and> is_mat 8 8 (Q nine_bit_state)
   \<and> morphism_2_syndrome_encoding 0 nine_bit_state =
       Inr \<lparr> C = [0, 0, 0, 0, 0, 0, 0, 0, 0],
             Q = [[73/80,0,0,0,0,0,0,0], [0,1/80,0,0,0,0,0,0], [0,0,1/80,0,0,0,0,0],
                  [0,0,0,1/80,0,0,0,0], [0,0,0,0,1/80,0,0,0], [0,0,0,0,0,1/80,0,0],
                  [0,0,0,0,0,0,1/80,0], [0,0,0,0,0,0,0,1/80]],
             morphisms_applied = {''f_info''}, points = None \<rparr>"
proof -
  have "is_mat 8 8 (Q nine_bit_state)"
    by (simp add: nine_bit_state_fields initial_state_Q is_mat_def)
  moreover have "morphism_2_syndrome_encoding 0 nine_bit_state =
       Inr \<lparr> C = [0, 0, 0, 0, 0, 0, 0, 0, 0],
             Q = [[73/80,0,0,0,0,0,0,0], [0,1/80,0,0,0,0,0,0], [0,0,1/80,0,0,0,0,0],
                  [0,0,0,1/80,0,0,0,0], [0,0,0,0,1/80,0,0,0], [0,0,0,0,0,1/80,0,0],
                  [0,0,0,0,0,0,1/80,0], [0,0,0,0,0,0,0,1/80]],
             morphisms_applied = {''f_info''}, points = None \<rparr>"
    unfolding morphism_2_syndrome_encoding_def nine_bit_state_fields N_QUBITS_def
      measure_initial_state Let_def encode_nine
    by simp
  ultimately show ?thesis by (simp add: nine_bit_state_fields)
qed

text \<open>
  Claim C8, amended. \<open>morphism_2_syndrome_encoding\<close> and \<open>compute_C_info\<close> check no
  dimension and never raise \<open>DimensionMismatch\<close>. f_info rejects a classical component
  of fewer than 7 entries with \<open>IndexError\<close> and, with 7 entries or more, a quantum
  component that is not \<open>8 \<times> 8\<close> with \<open>ValueError\<close>; with 7 entries or more and a
  measurement that succeeds it returns a state whose classical component has the
  length of the input's. C_info rejects a quantum component that is not square with
  \<open>ValueError\<close> and computes a value for every other state, whatever its classical length.
\<close>

theorem no_dimension_check:
  "morphism_2_syndrome_encoding u st \<noteq> Inl DimensionMismatch
   \<and> (length (C st) < 7 \<longrightarrow> morphism_2_syndrome_encoding u st = Inl IndexError)
   \<and> (7 \<le> length (C st) \<and> \<not> is_mat 8 8 (Q st) \<longrightarrow>
        morphism_2_syndrome_encoding u st = Inl ValueError)
   \<and> (7 \<le> length (C st) \<and> measure_qubit u (Q st) 0 N_QUBITS = Inr (outcome, Q_2) \<longrightarrow>
        (\<exists>C_2. length C_2 = length (C st) \<and>
           morphism_2_syndrome_encoding u st =
             Inr \<lparr> C = C_2, Q = Q_2,
                   morphisms_applied = insert ''f_info'' (morphisms_applied st),
                   points = None \<rparr>))
   \<and> compute_C_info eigvalsh st \<noteq> Inl DimensionMismatch
   \<and> (is_square (Q st) \<longrightarrow> (\<exists>v. compute_C_info eigvalsh st = Inr v))
   \<and> (\<not> is_square (Q st) \<longrightarrow> compute_C_info eigvalsh st = Inl ValueError)"
proof (intro conjI impI)
  show "morphism_2_syndrome_encoding u st \<noteq> Inl DimensionMismatch"
    by (rule f_info_never_dimension_mismatch)
  show "morphism_2_syndrome_encoding u st = Inl IndexError" if "length (C st) < 7"
    using that by (rule f_info_short)
  show "morphism_2_syndrome_encoding u st = Inl ValueError"
    if "7 \<le> length (C st) \<and> \<not> is_mat 8 8 (Q st)"
    using that f_info_bad_matrix by blast
  show "\<exists>C_2. length C_2 = length (C st) \<and>
           morphism_2_syndrome_encoding u st =
             Inr \<lparr> C = C_2, Q = Q_2,
                   morphisms_applied = insert ''f_info'' (morphisms_applied st),
                   points = None \<rparr>"
    if "7 \<le> length (C st) \<and> measure_qubit u (Q st) 0 N_QUBITS = Inr (outcome, Q_2)"
    using that f_info_accepts [of st u outcome Q_2] by blast
  show "compute_C_info eigvalsh st \<noteq> Inl DimensionMismatch"
    by (rule C_info_errors(1))
  show "\<exists>v. compute_C_info eigvalsh st = Inr v" if "is_square (Q st)"
    using that by (rule C_info_errors(2))
  show "compute_C_info eigvalsh st = Inl ValueError" if "\<not> is_square (Q st)"
    using that by (rule C_info_errors(3))
qed

theorem no_dimension_check_witness:
  "morphism_2_syndrome_encoding 0 three_bit_state = Inl IndexError
   \<and> morphism_2_syndrome_encoding 0 no_qubit_state = Inl ValueError
   \<and> compute_C_info (\<lambda>M. [0, 0, 0, 0, 0, 0, 0, 1]) nine_bit_state \<noteq> Inl DimensionMismatch
   \<and> (\<exists>v. compute_C_info (\<lambda>M. [0, 0, 0, 0, 0, 0, 0, 1]) nine_bit_state = Inr v)
   \<and> (\<exists>C_2. length C_2 = 9 \<and>
        morphism_2_syndrome_encoding 0 nine_bit_state =
          Inr \<lparr> C = C_2,
                Q = [[73/80,0,0,0,0,0,0,0], [0,1/80,0,0,0,0,0,0], [0,0,1/80,0,0,0,0,0],
                     [0,0,0,1/80,0,0,0,0], [0,0,0,0,1/80,0,0,0], [0,0,0,0,0,1/80,0,0],
                     [0,0,0,0,0,0,1/80,0], [0,0,0,0,0,0,0,1/80]],
                morphisms_applied = {''f_info''}, points = None \<rparr>)"
proof -
  have three: "length (C three_bit_state) < 7"
    by (simp add: three_bit_state_def)
  have noq: "7 \<le> length (C no_qubit_state) \<and> \<not> is_mat 8 8 (Q no_qubit_state)"
    by (simp add: no_qubit_state_def initial_state_C is_mat_def)
  have nine: "7 \<le> length (C nine_bit_state)" "length (C nine_bit_state) = 9"
    by (simp_all add: nine_bit_state_fields)
  have sq: "is_square (Q nine_bit_state)"
    by (simp add: nine_bit_state_fields initial_state_Q is_square_def is_mat_def)
  have meas: "measure_qubit 0 (Q nine_bit_state) 0 N_QUBITS = Inr (0,
       [[73/80,0,0,0,0,0,0,0], [0,1/80,0,0,0,0,0,0], [0,0,1/80,0,0,0,0,0], [0,0,0,1/80,0,0,0,0],
        [0,0,0,0,1/80,0,0,0], [0,0,0,0,0,1/80,0,0], [0,0,0,0,0,0,1/80,0], [0,0,0,0,0,0,0,1/80]])"
    unfolding nine_bit_state_fields N_QUBITS_def measure_initial_state by simp
  let ?ev = "\<lambda>M::cmat. [0, 0, 0, 0, 0, 0, 0, 1::real]"
  have p1: "morphism_2_syndrome_encoding 0 three_bit_state = Inl IndexError"
    using no_dimension_check [of 0 three_bit_state, THEN conjunct2, THEN conjunct1] three
    by (rule mp)
  have p2: "morphism_2_syndrome_encoding 0 no_qubit_state = Inl ValueError"
    using no_dimension_check [of 0 no_qubit_state, THEN conjunct2, THEN conjunct2, THEN conjunct1] noq
    by (rule mp)
  note n = no_dimension_check [of 0 nine_bit_state 0 _ ?ev, THEN conjunct2, THEN conjunct2, THEN conjunct2]
  have p3: "compute_C_info ?ev nine_bit_state \<noteq> Inl DimensionMismatch"
    using n [THEN conjunct2, THEN conjunct1] .
  have p4: "\<exists>v. compute_C_info ?ev nine_bit_state = Inr v"
    using n [THEN conjunct2, THEN conjunct2, THEN conjunct1] sq by (rule mp)
  have p5: "\<exists>C_2. length C_2 = length (C nine_bit_state) \<and>
        morphism_2_syndrome_encoding 0 nine_bit_state =
          Inr \<lparr> C = C_2,
                Q = [[73/80,0,0,0,0,0,0,0], [0,1/80,0,0,0,0,0,0], [0,0,1/80,0,0,0,0,0],
                     [0,0,0,1/80,0,0,0,0], [0,0,0,0,1/80,0,0,0], [0,0,0,0,0,1/80,0,0],
                     [0,0,0,0,0,0,1/80,0], [0,0,0,0,0,0,0,1/80]],
                morphisms_applied = insert ''f_info'' (morphisms_applied nine_bit_state),
                points = None \<rparr>"
    using n [THEN conjunct1] nine(1) meas by (rule mp [OF _ conjI])
  show ?thesis
    using p1 p2 p3 p4 p5 unfolding nine_bit_state_fields(3) nine(2) by (intro conjI)
qed

section \<open>Matrix algebra, the Floquet operator and validity of states\<close>

lemma is_mat_row: "is_mat r c M \<Longrightarrow> i < r \<Longrightarrow> length (M ! i) = c"
  by (simp add: is_mat_def list_all_length)

lemma is_mat_length: "is_mat r c M \<Longrightarrow> length M = r"
  by (simp add: is_mat_def)

lemma is_matI: "length M = r \<Longrightarrow> (\<And>i. i < r \<Longrightarrow> length (M ! i) = c) \<Longrightarrow> is_mat r c M"
  by (simp add: is_mat_def list_all_length)

lemma mat_eqI:
  assumes "is_mat r c A" "is_mat r c B"
    and "\<And>i j. i < r \<Longrightarrow> j < c \<Longrightarrow> A ! i ! j = B ! i ! j"
  shows "A = B"
proof (rule nth_equalityI)
  show "length A = length B" using assms(1,2) by (simp add: is_mat_def)
next
  fix i assume "i < length A"
  then have i: "i < r" using assms(1) by (simp add: is_mat_def)
  show "A ! i = B ! i"
    by (rule nth_equalityI) (use i assms in \<open>simp_all add: is_mat_row\<close>)
qed

lemma ncols_is_mat: "is_mat r c M \<Longrightarrow> 0 < r \<Longrightarrow> ncols M = c"
  by (cases M) (auto simp: ncols_def is_mat_def)

lemma dot_sum: "length u = n \<Longrightarrow> length v = n \<Longrightarrow> dot u v = (\<Sum>k<n. u ! k * v ! k)"
proof -
  assume a: "length u = n" "length v = n"
  have "dot u v = (\<Sum>i = 0..<length (map2 (*) u v). map2 (*) u v ! i)"
    unfolding dot_def by (rule sum_list_sum_nth)
  also have "\<dots> = (\<Sum>k<n. u ! k * v ! k)"
    using a by (intro sum.cong) (auto simp: atLeast0LessThan)
  finally show ?thesis .
qed

lemma column_nth: "j < length M \<Longrightarrow> column M k ! j = M ! j ! k"
  by (simp add: column_def)

lemma length_column: "length (column M k) = length M"
  by (simp add: column_def)

lemma matmul_is_mat:
  assumes "is_mat r m A" "is_mat m c B" "0 < m"
  shows "is_mat r c (matmul A B)"
  using assms by (intro is_matI) (simp_all add: matmul_def is_mat_length ncols_is_mat)

lemma matmul_nth:
  assumes "is_mat r m A" "is_mat m c B" "0 < m" "i < r" "j < c"
  shows "matmul A B ! i ! j = (\<Sum>k<m. A ! i ! k * B ! k ! j)"
proof -
  have "matmul A B ! i ! j = dot (A ! i) (column B j)"
    using assms by (simp add: matmul_def is_mat_length ncols_is_mat)
  also have "\<dots> = (\<Sum>k<m. (A ! i) ! k * column B j ! k)"
    using assms by (intro dot_sum) (simp_all add: is_mat_row length_column is_mat_length)
  also have "\<dots> = (\<Sum>k<m. A ! i ! k * B ! k ! j)"
    using assms by (intro sum.cong) (simp_all add: column_nth is_mat_length)
  finally show ?thesis .
qed

lemma matmul_sq:
  assumes "is_mat n n A" "is_mat n n B" "0 < n"
  shows "is_mat n n (matmul A B)"
    and "\<And>i j. i < n \<Longrightarrow> j < n \<Longrightarrow> matmul A B ! i ! j = (\<Sum>k<n. A ! i ! k * B ! k ! j)"
  using assms matmul_is_mat [of n n A n B] matmul_nth [of n n A n B] by auto

lemma eye_is_mat: "is_mat n n (eye n)"
  by (simp add: eye_def is_mat_def list_all_length)

lemma eye_nth: "i < n \<Longrightarrow> j < n \<Longrightarrow> eye n ! i ! j = (if i = j then 1 else 0)"
  by (simp add: eye_def)

lemma dagger_is_mat: "is_mat r c M \<Longrightarrow> 0 < r \<Longrightarrow> is_mat c r (dagger M)"
  by (intro is_matI) (simp_all add: dagger_def ncols_is_mat length_column is_mat_length)

lemma dagger_nth:
  "is_mat r c M \<Longrightarrow> 0 < r \<Longrightarrow> i < c \<Longrightarrow> j < r \<Longrightarrow> dagger M ! i ! j = cnj (M ! j ! i)"
  by (simp add: dagger_def ncols_is_mat column_nth is_mat_length length_column)

lemma dagger_sq:
  assumes "is_mat n n A" "0 < n"
  shows "is_mat n n (dagger A)"
    and "\<And>i j. i < n \<Longrightarrow> j < n \<Longrightarrow> dagger A ! i ! j = cnj (A ! j ! i)"
  using assms dagger_is_mat [of n n A] dagger_nth [of n n A] by auto

lemma matmul_assoc:
  assumes "is_mat n n A" "is_mat n n B" "is_mat n n D" "0 < n"
  shows "matmul (matmul A B) D = matmul A (matmul B D)"
proof (rule mat_eqI [of n n])
  show "is_mat n n (matmul (matmul A B) D)" "is_mat n n (matmul A (matmul B D))"
    using assms by (simp_all add: matmul_sq [where n = n])
next
  fix i j assume ij: "i < n" "j < n"
  have "matmul (matmul A B) D ! i ! j = (\<Sum>k<n. (\<Sum>l<n. A ! i ! l * B ! l ! k) * D ! k ! j)"
    using assms ij by (simp add: matmul_sq [where n = n])
  also have "\<dots> = (\<Sum>k<n. \<Sum>l<n. A ! i ! l * (B ! l ! k * D ! k ! j))"
    by (simp add: sum_distrib_right mult.assoc)
  also have "\<dots> = (\<Sum>l<n. \<Sum>k<n. A ! i ! l * (B ! l ! k * D ! k ! j))"
    by (rule sum.swap)
  also have "\<dots> = (\<Sum>l<n. A ! i ! l * (\<Sum>k<n. B ! l ! k * D ! k ! j))"
    by (simp add: sum_distrib_left)
  also have "\<dots> = matmul A (matmul B D) ! i ! j"
    using assms ij by (simp add: matmul_sq [where n = n])
  finally show "matmul (matmul A B) D ! i ! j = matmul A (matmul B D) ! i ! j" .
qed

lemma matmul_eye_left:
  assumes "is_mat n n A" "0 < n"
  shows "matmul (eye n) A = A"
proof (rule mat_eqI [of n n])
  fix i j assume ij: "i < n" "j < n"
  have "matmul (eye n) A ! i ! j = (\<Sum>k<n. (if i = k then 1 else 0) * A ! k ! j)"
    using assms ij by (simp add: matmul_sq [where n = n] eye_is_mat eye_nth)
  also have "\<dots> = (\<Sum>k<n. if k = i then A ! k ! j else 0)"
    by (intro sum.cong) auto
  also have "\<dots> = A ! i ! j"
    using ij by simp
  finally show "matmul (eye n) A ! i ! j = A ! i ! j" .
qed (use assms in \<open>simp_all add: matmul_sq [where n = n] eye_is_mat\<close>)

lemma matmul_eye_right:
  assumes "is_mat n n A" "0 < n"
  shows "matmul A (eye n) = A"
proof (rule mat_eqI [of n n])
  fix i j assume ij: "i < n" "j < n"
  have "matmul A (eye n) ! i ! j = (\<Sum>k<n. A ! i ! k * (if k = j then 1 else 0))"
    using assms ij by (simp add: matmul_sq [where n = n] eye_is_mat eye_nth)
  also have "\<dots> = (\<Sum>k<n. if k = j then A ! i ! k else 0)"
    by (intro sum.cong) auto
  also have "\<dots> = A ! i ! j"
    using ij by simp
  finally show "matmul A (eye n) ! i ! j = A ! i ! j" .
qed (use assms in \<open>simp_all add: matmul_sq [where n = n] eye_is_mat\<close>)

lemma dagger_matmul:
  assumes "is_mat n n A" "is_mat n n B" "0 < n"
  shows "dagger (matmul A B) = matmul (dagger B) (dagger A)"
proof (rule mat_eqI [of n n])
  fix i j assume ij: "i < n" "j < n"
  have "dagger (matmul A B) ! i ! j = cnj (\<Sum>k<n. A ! j ! k * B ! k ! i)"
    using assms ij by (simp add: dagger_sq [where n = n] matmul_sq [where n = n])
  also have "\<dots> = (\<Sum>k<n. dagger B ! i ! k * dagger A ! k ! j)"
    using assms ij by (simp add: dagger_sq [where n = n] mult.commute)
  also have "\<dots> = matmul (dagger B) (dagger A) ! i ! j"
    using assms ij by (simp add: matmul_sq [where n = n] dagger_sq [where n = n])
  finally show "dagger (matmul A B) ! i ! j = matmul (dagger B) (dagger A) ! i ! j" .
qed (use assms in \<open>simp_all add: matmul_sq [where n = n] dagger_sq [where n = n]\<close>)

lemma dagger_dagger:
  assumes "is_mat n n A" "0 < n"
  shows "dagger (dagger A) = A"
  by (rule mat_eqI [of n n]) (use assms in \<open>simp_all add: dagger_sq [where n = n]\<close>)

lemma dagger_eye: "0 < n \<Longrightarrow> dagger (eye n) = eye n"
  by (rule mat_eqI [of n n]) (auto simp: dagger_sq [where n = n] eye_is_mat eye_nth)

lemma mat_pow_is_mat: "is_mat n n A \<Longrightarrow> 0 < n \<Longrightarrow> is_mat n n (mat_pow A k)"
  by (induction k) (simp_all add: eye_is_mat matmul_sq [where n = n] is_mat_length)

lemma mat_pow_Suc_right:
  assumes "is_mat n n A" "0 < n"
  shows "mat_pow A (Suc k) = matmul (mat_pow A k) A"
proof (induction k)
  case 0
  then show ?case using assms by (simp add: is_mat_length matmul_eye_left matmul_eye_right)
next
  case (Suc k)
  have "mat_pow A (Suc (Suc k)) = matmul A (matmul (mat_pow A k) A)"
    using Suc by simp
  also have "\<dots> = matmul (matmul A (mat_pow A k)) A"
    using assms by (simp add: matmul_assoc mat_pow_is_mat)
  finally show ?case by simp
qed

lemma mat_pow_inverse:
  assumes "is_mat n n A" "is_mat n n B" "0 < n" "matmul B A = eye n"
  shows "matmul (mat_pow B k) (mat_pow A k) = eye n"
proof (induction k)
  case 0
  then show ?case using assms by (simp add: is_mat_length matmul_eye_left eye_is_mat)
next
  case (Suc k)
  let ?Ak = "mat_pow A k" and ?Bk = "mat_pow B k"
  have m: "is_mat n n ?Ak" "is_mat n n ?Bk" using assms by (simp_all add: mat_pow_is_mat)
  have "matmul (mat_pow B (Suc k)) (mat_pow A (Suc k)) = matmul (matmul ?Bk B) (matmul A ?Ak)"
    using mat_pow_Suc_right [OF assms(2,3)] by simp
  also have "\<dots> = matmul ?Bk (matmul B (matmul A ?Ak))"
    using assms m by (simp add: matmul_assoc matmul_sq [where n = n])
  also have "\<dots> = matmul ?Bk (matmul (matmul B A) ?Ak)"
    using matmul_assoc [OF assms(2,1) m(1) assms(3)] by simp
  also have "\<dots> = eye n"
    using assms m Suc by (simp add: matmul_eye_left)
  finally show ?case .
qed

lemma kicked_ising_evolution_unfold:
  "kicked_ising_evolution expm rho N_QUBITS J_ISING H_KICK TAU N_KICKS =
     matmul (matmul (mat_pow (U_floquet expm) 5) rho) (dagger (mat_pow (U_floquet expm) 5))"
  by (simp add: kicked_ising_evolution_def U_floquet_def Let_def N_KICKS_def)

lemma floquet_facts:
  assumes "expm_contract expm"
  shows "is_mat 8 8 (U_floquet expm)" "is_mat 8 8 (U_floquet_dag expm)"
    "matmul (U_floquet_dag expm) (U_floquet expm) = eye 8"
    "matmul (U_floquet expm) (U_floquet_dag expm) = eye 8"
    "dagger (U_floquet expm) = U_floquet_dag expm"
proof -
  define U1 where "U1 = expm (mat_scale (complex_of_real TAU) (mat_scale (- \<i>) (ising_hamiltonian N_QUBITS J_ISING)))"
  define U2 where "U2 = expm (mat_scale (complex_of_real TAU) (mat_scale (- \<i>) (kick_hamiltonian N_QUBITS H_KICK)))"
  define V1 where "V1 = expm (mat_scale (complex_of_real TAU) (mat_scale \<i> (ising_hamiltonian N_QUBITS J_ISING)))"
  define V2 where "V2 = expm (mat_scale (complex_of_real TAU) (mat_scale \<i> (kick_hamiltonian N_QUBITS H_KICK)))"
  have m: "is_mat 8 8 U1" "is_mat 8 8 U2" "is_mat 8 8 V1" "is_mat 8 8 V2"
    and i1: "matmul V1 U1 = eye 8" "matmul U1 V1 = eye 8"
    and i2: "matmul V2 U2 = eye 8" "matmul U2 V2 = eye 8"
    and d: "dagger U1 = V1" "dagger U2 = V2"
    using assms
    by (simp_all add: expm_contract_def expm_unitary_pair_def Let_def U1_def U2_def V1_def V2_def)
  have U: "U_floquet expm = matmul U1 U2" and V: "U_floquet_dag expm = matmul V2 V1"
    by (simp_all add: U_floquet_def U_floquet_dag_def U1_def U2_def V1_def V2_def)
  have pos: "(0::nat) < 8" by simp
  show "is_mat 8 8 (U_floquet expm)" "is_mat 8 8 (U_floquet_dag expm)"
    unfolding U V using m by (simp_all add: matmul_sq(1) [where n = 8])
  have "matmul (matmul V2 V1) (matmul U1 U2) = matmul V2 (matmul V1 (matmul U1 U2))"
    using m by (simp add: matmul_assoc [where n = 8] matmul_sq(1) [where n = 8])
  also have "\<dots> = matmul V2 (matmul (matmul V1 U1) U2)"
    using matmul_assoc [OF m(3,1,2) pos] by simp
  also have "\<dots> = eye 8"
    using m i1 i2 by (simp add: matmul_eye_left [where n = 8])
  finally show "matmul (U_floquet_dag expm) (U_floquet expm) = eye 8"
    unfolding U V .
  have "matmul (matmul U1 U2) (matmul V2 V1) = matmul U1 (matmul U2 (matmul V2 V1))"
    using m by (simp add: matmul_assoc [where n = 8] matmul_sq(1) [where n = 8])
  also have "\<dots> = matmul U1 (matmul (matmul U2 V2) V1)"
    using matmul_assoc [OF m(2,4,3) pos] by simp
  also have "\<dots> = eye 8"
    using m i1 i2 by (simp add: matmul_eye_left [where n = 8])
  finally show "matmul (U_floquet expm) (U_floquet_dag expm) = eye 8"
    unfolding U V .
  show "dagger (U_floquet expm) = U_floquet_dag expm"
    unfolding U V using dagger_matmul [OF m(1,2) pos] d by simp
qed

lemma conjugation_inverse:
  assumes "is_mat n n V" "is_mat n n U" "is_mat n n R" "0 < n" "matmul V U = eye n"
  shows "matmul (matmul V (matmul (matmul U R) (dagger U))) (dagger V) = R"
proof -
  have dU: "is_mat n n (dagger U)" and dV: "is_mat n n (dagger V)"
    using assms by (simp_all add: dagger_sq(1) [where n = n])
  have UR: "is_mat n n (matmul U R)"
    using assms by (simp add: matmul_sq(1) [where n = n])
  have dd: "matmul (dagger U) (dagger V) = eye n"
    using dagger_matmul [OF assms(1,2,4)] assms(5) dagger_eye [OF assms(4)] by simp
  have "matmul V (matmul (matmul U R) (dagger U)) = matmul (matmul V (matmul U R)) (dagger U)"
    using matmul_assoc [OF assms(1) UR dU assms(4)] by simp
  also have "matmul V (matmul U R) = matmul (matmul V U) R"
    using matmul_assoc [OF assms(1,2,3,4)] by simp
  also have "\<dots> = R"
    using assms by (simp add: matmul_eye_left)
  finally have "matmul (matmul V (matmul (matmul U R) (dagger U))) (dagger V)
      = matmul (matmul R (dagger U)) (dagger V)" by simp
  also have "\<dots> = matmul R (matmul (dagger U) (dagger V))"
    using matmul_assoc [OF assms(3) dU dV assms(4)] .
  also have "\<dots> = R"
    using assms dd by (simp add: matmul_eye_right)
  finally show ?thesis .
qed

lemma dagger_mat_pow:
  assumes "is_mat n n A" "0 < n"
  shows "dagger (mat_pow A k) = mat_pow (dagger A) k"
proof (induction k)
  case 0
  then show ?case
    using assms dagger_sq(1) [OF assms] by (simp add: is_mat_length dagger_eye)
next
  case (Suc k)
  have "dagger (mat_pow A (Suc k)) = matmul (dagger (mat_pow A k)) (dagger A)"
    using dagger_matmul [OF assms(1) mat_pow_is_mat [OF assms] assms(2)] by simp
  also have "\<dots> = mat_pow (dagger A) (Suc k)"
    using Suc mat_pow_Suc_right [OF dagger_sq(1) [OF assms] assms(2)] by simp
  finally show ?case .
qed

text \<open>
  Claim C7. For every state whose quantum component is an 8 by 8 matrix (every
  density matrix of three qubits in particular), \<open>f_dyn\<close> followed by \<open>f_dyn_inv\<close>
  succeeds and returns a state with the same quantum component, and the operator
  that \<open>f_dyn_inv\<close> conjugates by is the adjoint of the total Floquet operator of
  \<open>f_dyn\<close> (five kicks). The matrix exponential is a parameter satisfying
  \<open>expm_contract\<close>; the arithmetic is exact.
\<close>

theorem f_dyn_inv_restores_quantum:
  assumes "expm_contract expm" and "is_mat 8 8 (Q st)"
  shows "\<exists>X_3 X_2_back.
           morphism_3_arnold_cat expm st = Inr X_3
           \<and> f_dyn_inv expm X_3 = Inr X_2_back
           \<and> Q X_2_back = Q st
           \<and> mat_pow (U_floquet_dag expm) N_KICKS = dagger (mat_pow (U_floquet expm) N_KICKS)"
proof -
  let ?U = "mat_pow (U_floquet expm) 5" and ?V = "mat_pow (U_floquet_dag expm) 5"
  note ff = floquet_facts [OF assms(1)]
  have pos: "(0::nat) < 8" by simp
  have U: "is_mat 8 8 ?U" and V: "is_mat 8 8 ?V"
    using ff by (simp_all add: mat_pow_is_mat)
  have VU: "matmul ?V ?U = eye 8"
    using mat_pow_inverse [OF ff(1,2) pos ff(3)] .
  define X_3 where "X_3 = \<lparr> C = arnold_cat_map_bits (C st),
      Q = matmul (matmul ?U (Q st)) (dagger ?U),
      morphisms_applied = insert ''f_dyn'' (morphisms_applied st), points = None \<rparr>"
  have step1: "morphism_3_arnold_cat expm st = Inr X_3"
    using assms(2)
    by (simp add: morphism_3_arnold_cat_def Let_def DIM_HILBERT_def N_QUBITS_def X_3_def
        kicked_ising_evolution_unfold [unfolded N_QUBITS_def])
  have Q3: "is_mat 8 8 (Q X_3)"
    using U assms(2) by (simp add: X_3_def matmul_sq(1) [where n = 8] dagger_sq(1) [where n = 8])
  define X_2 where "X_2 = \<lparr> C = unpermute_bits (unmix_bits (C X_3)),
      Q = matmul (matmul ?V (Q X_3)) (dagger ?V),
      morphisms_applied = morphisms_applied X_3 - {''f_dyn''}, points = None \<rparr>"
  have step2: "f_dyn_inv expm X_3 = Inr X_2"
    using Q3
    by (simp add: f_dyn_inv_def Let_def DIM_HILBERT_def N_QUBITS_def X_2_def N_KICKS_def
        U_floquet_dag_def)
  have "Q X_2 = matmul (matmul ?V (matmul (matmul ?U (Q st)) (dagger ?U))) (dagger ?V)"
    by (simp add: X_2_def X_3_def)
  also have "\<dots> = Q st"
    using conjugation_inverse [OF V U assms(2) pos VU] .
  finally have restored: "Q X_2 = Q st" .
  have "dagger ?U = ?V"
    using dagger_mat_pow [OF ff(1) pos] ff(5) by simp
  then show ?thesis
    using step1 step2 restored by (simp add: N_KICKS_def)
qed

lemma upt_0_2: "[0..<2] = [0, Suc 0]" by code_simp

lemma ising_term_0: "ising_term 3 0 =
  [[1,0,0,0,0,0,0,0],[0,1,0,0,0,0,0,0],[0,0,-1,0,0,0,0,0],[0,0,0,-1,0,0,0,0],
   [0,0,0,0,-1,0,0,0],[0,0,0,0,0,-1,0,0],[0,0,0,0,0,0,1,0],[0,0,0,0,0,0,0,1]]"
  by (simp add: ising_term_def upt_0_3 kron_def pauli_Z_def eye_def upt_0_2)

lemma ising_term_1: "ising_term 3 (Suc 0) =
  [[1,0,0,0,0,0,0,0],[0,-1,0,0,0,0,0,0],[0,0,-1,0,0,0,0,0],[0,0,0,1,0,0,0,0],
   [0,0,0,0,1,0,0,0],[0,0,0,0,0,-1,0,0],[0,0,0,0,0,0,-1,0],[0,0,0,0,0,0,0,1]]"
  by (simp add: ising_term_def upt_0_3 kron_def pauli_Z_def eye_def upt_0_2 del: One_nat_def)

lemma zero_mat_8: "zero_mat 8 = 
  [[0,0,0,0,0,0,0,0],[0,0,0,0,0,0,0,0],[0,0,0,0,0,0,0,0],[0,0,0,0,0,0,0,0],
   [0,0,0,0,0,0,0,0],[0,0,0,0,0,0,0,0],[0,0,0,0,0,0,0,0],[0,0,0,0,0,0,0,0]]"
  by (simp add: zero_mat_def eval_nat_numeral)

lemma ising_hamiltonian_3: "ising_hamiltonian 3 J =
  [[2 * complex_of_real J,0,0,0,0,0,0,0],[0,0,0,0,0,0,0,0],[0,0,- 2 * complex_of_real J,0,0,0,0,0],[0,0,0,0,0,0,0,0],
   [0,0,0,0,0,0,0,0],[0,0,0,0,0,- 2 * complex_of_real J,0,0],[0,0,0,0,0,0,0,0],[0,0,0,0,0,0,0,2 * complex_of_real J]]"
proof -
  have d: "(2::nat) ^ 3 = 8" "3 - 1 = (2::nat)" by simp_all
  show ?thesis
    unfolding ising_hamiltonian_def d upt_0_2 foldl.simps ising_term_0 ising_term_1 zero_mat_8
    by (simp add: mat_add_def mat_scale_def)
qed

lemma kick_hamiltonian_3: "kick_hamiltonian 3 h =
  (let a = complex_of_real h in
  [[0,a,a,0,a,0,0,0],[a,0,0,a,0,a,0,0],[a,0,0,a,0,0,a,0],[0,a,a,0,0,0,0,a],
   [a,0,0,0,0,a,a,0],[0,a,0,0,a,0,0,a],[0,0,a,0,a,0,0,a],[0,0,0,a,0,a,a,0]])"
proof -
  have d: "(2::nat) ^ 3 = 8" by simp
  have u3: "[0..<3] = [0, Suc 0, 2]" by code_simp
  show ?thesis
    unfolding kick_hamiltonian_def d u3 foldl.simps zero_mat_8 kick_term_def
    by (simp add: mat_add_def mat_scale_def kron_def pauli_X_def eye_def upt_0_2 Let_def)
qed

lemma kron_mixed_2_2:
  fixes a11 :: complex
  shows "matmul (kron [[a11,a12],[a21,a22]] [[b11,b12],[b21,b22]])
                (kron [[c11,c12],[c21,c22]] [[d11,d12],[d21,d22]]) =
         kron (matmul [[a11,a12],[a21,a22]] [[c11,c12],[c21,c22]])
              (matmul [[b11,b12],[b21,b22]] [[d11,d12],[d21,d22]])"
  by (simp add: kron_def matmul_def ncols_def column_def dot_def upt_0_2 upt_0_4 algebra_simps del: One_nat_def)

lemma kron_mixed_2_4:
  fixes a11 :: complex
  shows "matmul (kron [[a11,a12],[a21,a22]]
                   [[b11,b12,b13,b14],[b21,b22,b23,b24],[b31,b32,b33,b34],[b41,b42,b43,b44]])
                (kron [[c11,c12],[c21,c22]]
                   [[d11,d12,d13,d14],[d21,d22,d23,d24],[d31,d32,d33,d34],[d41,d42,d43,d44]]) =
         kron (matmul [[a11,a12],[a21,a22]] [[c11,c12],[c21,c22]])
              (matmul [[b11,b12,b13,b14],[b21,b22,b23,b24],[b31,b32,b33,b34],[b41,b42,b43,b44]]
                      [[d11,d12,d13,d14],[d21,d22,d23,d24],[d31,d32,d33,d34],[d41,d42,d43,d44]])"
  by (simp add: kron_def matmul_def ncols_def column_def dot_def upt_0_2 upt_0_4 upt_0_8 algebra_simps del: One_nat_def)

lemma exp_i_times: "exp (\<i> * complex_of_real x) = cis x"
  by (simp add: cis_conv_exp)

lemma cos_sin_one: "complex_of_real (cos a) * complex_of_real (cos a)
    + complex_of_real (sin a) * complex_of_real (sin a) = 1"
proof -
  have "cos a * cos a + sin a * sin a = 1"
    using sin_cos_squared_add3 [of a] by (simp add: power2_eq_square)
  then have "complex_of_real (cos a * cos a + sin a * sin a) = 1" by simp
  then show ?thesis by (simp only: of_real_add of_real_mult)
qed

lemma i_times_i: "\<i> * x * (\<i> * y) = - (x * y)"
  by (simp add: algebra_simps)

lemma rotation_X_inverse:
  "matmul (rotation_X a) (rotation_X (- a)) = [[1, 0], [0, 1]]"
  using cos_sin_one [of a] cos_sin_one [of a, unfolded add.commute [of "complex_of_real (cos a) * complex_of_real (cos a)"]]
  by (simp add: rotation_X_def matmul_def ncols_def column_def dot_def upt_0_2 i_times_i
      del: One_nat_def)

lemma kron_2_2_form:
  "kron [[a, b], [c, d]] [[e, f], [g, h]] =
     [[a * e, a * f, b * e, b * f], [a * g, a * h, b * g, b * h],
      [c * e, c * f, d * e, d * f], [c * g, c * h, d * g, d * h :: complex]]"
  by (simp add: kron_def)

lemma kron_rotation_inverse:
  "matmul (kron (rotation_X a) (rotation_X a)) (kron (rotation_X (- a)) (rotation_X (- a))) =
     [[1, 0, 0, 0], [0, 1, 0, 0], [0, 0, 1, 0], [0, 0, 0, 1]]"
proof -
  have "matmul (kron (rotation_X a) (rotation_X a)) (kron (rotation_X (- a)) (rotation_X (- a))) =
     kron (matmul (rotation_X a) (rotation_X (- a))) (matmul (rotation_X a) (rotation_X (- a)))"
    unfolding rotation_X_def by (rule kron_mixed_2_2)
  also have "\<dots> = [[1, 0, 0, 0], [0, 1, 0, 0], [0, 0, 1, 0], [0, 0, 0, 1]]"
    unfolding rotation_X_inverse by (simp add: kron_def)
  finally show ?thesis .
qed

lemma kick_exp_inverse: "matmul (kick_exp a) (kick_exp (- a)) = eye 8"
proof -
  have "matmul (kick_exp a) (kick_exp (- a)) =
     kron (matmul (rotation_X a) (rotation_X (- a)))
          (matmul (kron (rotation_X a) (rotation_X a)) (kron (rotation_X (- a)) (rotation_X (- a))))"
    unfolding kick_exp_def rotation_X_def kron_2_2_form by (rule kron_mixed_2_4)
  also have "\<dots> = eye 8"
    unfolding rotation_X_inverse kron_rotation_inverse
    by (simp add: kron_def eye_def upt_0_8)
  finally show ?thesis .
qed

lemma kick_exp_is_mat: "is_mat 8 8 (kick_exp a)"
  by (simp add: kick_exp_def rotation_X_def kron_def is_mat_def)

lemma kick_exp_dagger: "dagger (kick_exp a) = kick_exp (- a)"
  by (simp add: kick_exp_def rotation_X_def kron_def dagger_def ncols_def column_def upt_0_8)

lemma diag_pair:
  "matmul [[cis a,0,0,0,0,0,0,0],[0,1,0,0,0,0,0,0],[0,0,cis b,0,0,0,0,0],[0,0,0,1,0,0,0,0],
           [0,0,0,0,1,0,0,0],[0,0,0,0,0,cis b,0,0],[0,0,0,0,0,0,1,0],[0,0,0,0,0,0,0,cis a]]
          [[cis (- a),0,0,0,0,0,0,0],[0,1,0,0,0,0,0,0],[0,0,cis (- b),0,0,0,0,0],[0,0,0,1,0,0,0,0],
           [0,0,0,0,1,0,0,0],[0,0,0,0,0,cis (- b),0,0],[0,0,0,0,0,0,1,0],[0,0,0,0,0,0,0,cis (- a)]]
     = eye 8"
  by (simp add: matmul_def ncols_def column_def dot_def upt_0_8 eye_def cis_mult)

lemma expm_closed_form_ising:
  "expm_closed_form (mat_scale (complex_of_real TAU) (mat_scale (- \<i>) (ising_hamiltonian N_QUBITS J_ISING))) =
     [[cis (- (pi / 4)),0,0,0,0,0,0,0],[0,1,0,0,0,0,0,0],[0,0,cis (pi / 4),0,0,0,0,0],[0,0,0,1,0,0,0,0],
      [0,0,0,0,1,0,0,0],[0,0,0,0,0,cis (pi / 4),0,0],[0,0,0,0,0,0,1,0],[0,0,0,0,0,0,0,cis (- (pi / 4))]]"
  "expm_closed_form (mat_scale (complex_of_real TAU) (mat_scale \<i> (ising_hamiltonian N_QUBITS J_ISING))) =
     [[cis (pi / 4),0,0,0,0,0,0,0],[0,1,0,0,0,0,0,0],[0,0,cis (- (pi / 4)),0,0,0,0,0],[0,0,0,1,0,0,0,0],
      [0,0,0,0,1,0,0,0],[0,0,0,0,0,cis (- (pi / 4)),0,0],[0,0,0,0,0,0,1,0],[0,0,0,0,0,0,0,cis (pi / 4)]]"
proof -
  have e: "exp (- (\<i> * complex_of_real pi / 4)) = cis (- (pi / 4))"
    "exp (\<i> * complex_of_real pi / 4) = cis (pi / 4)"
    by (simp_all add: cis_conv_exp)
  show "expm_closed_form (mat_scale (complex_of_real TAU) (mat_scale (- \<i>) (ising_hamiltonian N_QUBITS J_ISING))) =
     [[cis (- (pi / 4)),0,0,0,0,0,0,0],[0,1,0,0,0,0,0,0],[0,0,cis (pi / 4),0,0,0,0,0],[0,0,0,1,0,0,0,0],
      [0,0,0,0,1,0,0,0],[0,0,0,0,0,cis (pi / 4),0,0],[0,0,0,0,0,0,1,0],[0,0,0,0,0,0,0,cis (- (pi / 4))]]"
    unfolding N_QUBITS_def ising_hamiltonian_3
    by (simp add: expm_closed_form_def diag_exp_def mat_scale_def upt_0_8 TAU_def J_ISING_def e)
  show "expm_closed_form (mat_scale (complex_of_real TAU) (mat_scale \<i> (ising_hamiltonian N_QUBITS J_ISING))) =
     [[cis (pi / 4),0,0,0,0,0,0,0],[0,1,0,0,0,0,0,0],[0,0,cis (- (pi / 4)),0,0,0,0,0],[0,0,0,1,0,0,0,0],
      [0,0,0,0,1,0,0,0],[0,0,0,0,0,cis (- (pi / 4)),0,0],[0,0,0,0,0,0,1,0],[0,0,0,0,0,0,0,cis (pi / 4)]]"
    unfolding N_QUBITS_def ising_hamiltonian_3
    by (simp add: expm_closed_form_def diag_exp_def mat_scale_def upt_0_8 TAU_def J_ISING_def e)
qed

lemma expm_closed_form_kick:
  "expm_closed_form (mat_scale (complex_of_real TAU) (mat_scale (- \<i>) (kick_hamiltonian N_QUBITS H_KICK))) =
     kick_exp (- (pi / 16))"
  "expm_closed_form (mat_scale (complex_of_real TAU) (mat_scale \<i> (kick_hamiltonian N_QUBITS H_KICK))) =
     kick_exp (pi / 16)"
  unfolding N_QUBITS_def kick_hamiltonian_3
  by (simp_all add: expm_closed_form_def mat_scale_def Let_def TAU_def H_KICK_def)

lemma expm_closed_form_contract: "expm_contract expm_closed_form"
proof -
  have i1: "matmul
     [[cis (pi / 4),0,0,0,0,0,0,0],[0,1,0,0,0,0,0,0],[0,0,cis (- (pi / 4)),0,0,0,0,0],[0,0,0,1,0,0,0,0],
      [0,0,0,0,1,0,0,0],[0,0,0,0,0,cis (- (pi / 4)),0,0],[0,0,0,0,0,0,1,0],[0,0,0,0,0,0,0,cis (pi / 4)]]
     [[cis (- (pi / 4)),0,0,0,0,0,0,0],[0,1,0,0,0,0,0,0],[0,0,cis (pi / 4),0,0,0,0,0],[0,0,0,1,0,0,0,0],
      [0,0,0,0,1,0,0,0],[0,0,0,0,0,cis (pi / 4),0,0],[0,0,0,0,0,0,1,0],[0,0,0,0,0,0,0,cis (- (pi / 4))]]
     = eye 8"
    using diag_pair [of "pi / 4" "- (pi / 4)"] by simp
  have i2: "matmul
     [[cis (- (pi / 4)),0,0,0,0,0,0,0],[0,1,0,0,0,0,0,0],[0,0,cis (pi / 4),0,0,0,0,0],[0,0,0,1,0,0,0,0],
      [0,0,0,0,1,0,0,0],[0,0,0,0,0,cis (pi / 4),0,0],[0,0,0,0,0,0,1,0],[0,0,0,0,0,0,0,cis (- (pi / 4))]]
     [[cis (pi / 4),0,0,0,0,0,0,0],[0,1,0,0,0,0,0,0],[0,0,cis (- (pi / 4)),0,0,0,0,0],[0,0,0,1,0,0,0,0],
      [0,0,0,0,1,0,0,0],[0,0,0,0,0,cis (- (pi / 4)),0,0],[0,0,0,0,0,0,1,0],[0,0,0,0,0,0,0,cis (pi / 4)]]
     = eye 8"
    using diag_pair [of "- (pi / 4)" "pi / 4"] by simp
  have i3: "dagger
     [[cis (- (pi / 4)),0,0,0,0,0,0,0],[0,1,0,0,0,0,0,0],[0,0,cis (pi / 4),0,0,0,0,0],[0,0,0,1,0,0,0,0],
      [0,0,0,0,1,0,0,0],[0,0,0,0,0,cis (pi / 4),0,0],[0,0,0,0,0,0,1,0],[0,0,0,0,0,0,0,cis (- (pi / 4))]]
     = [[cis (pi / 4),0,0,0,0,0,0,0],[0,1,0,0,0,0,0,0],[0,0,cis (- (pi / 4)),0,0,0,0,0],[0,0,0,1,0,0,0,0],
      [0,0,0,0,1,0,0,0],[0,0,0,0,0,cis (- (pi / 4)),0,0],[0,0,0,0,0,0,1,0],[0,0,0,0,0,0,0,cis (pi / 4)]]"
    by (simp add: dagger_def ncols_def column_def upt_0_8 cis_cnj)
  have ising: "expm_unitary_pair expm_closed_form (ising_hamiltonian N_QUBITS J_ISING)"
    unfolding expm_unitary_pair_def Let_def expm_closed_form_ising i1 i2 i3
    by (simp add: is_mat_def)
  have k1: "matmul (kick_exp (pi / 16)) (kick_exp (- (pi / 16))) = eye 8"
    by (rule kick_exp_inverse)
  have k2: "matmul (kick_exp (- (pi / 16))) (kick_exp (pi / 16)) = eye 8"
    using kick_exp_inverse [of "- (pi / 16)"] by simp
  have k3: "dagger (kick_exp (- (pi / 16))) = kick_exp (pi / 16)"
    using kick_exp_dagger [of "- (pi / 16)"] by simp
  have kick: "expm_unitary_pair expm_closed_form (kick_hamiltonian N_QUBITS H_KICK)"
    unfolding expm_unitary_pair_def Let_def expm_closed_form_kick k1 k2 k3
    by (simp add: kick_exp_is_mat)
  show ?thesis
    using ising kick by (simp add: expm_contract_def)
qed

theorem f_dyn_inv_restores_quantum_witness:
  "expm_contract expm_closed_form \<and> is_mat 8 8 (Q initial_state)
   \<and> (\<exists>X_3 X_2_back.
           morphism_3_arnold_cat expm_closed_form initial_state = Inr X_3
           \<and> f_dyn_inv expm_closed_form X_3 = Inr X_2_back
           \<and> Q X_2_back = Q initial_state
           \<and> mat_pow (U_floquet_dag expm_closed_form) N_KICKS
               = dagger (mat_pow (U_floquet expm_closed_form) N_KICKS))"
proof -
  have m: "is_mat 8 8 (Q initial_state)"
    by (simp add: initial_state_Q is_mat_def)
  show ?thesis
    using f_dyn_inv_restores_quantum [OF expm_closed_form_contract m]
      expm_closed_form_contract m by (intro conjI)
qed

lemma inner_sum: "length u = n \<Longrightarrow> length v = n \<Longrightarrow> inner u v = (\<Sum>k<n. cnj (u ! k) * v ! k)"
  unfolding inner_def by (subst dot_sum [of _ n]) simp_all

lemma mat_vec_length: "length (mat_vec M v) = length M"
  by (simp add: mat_vec_def)

lemma mat_vec_nth:
  "is_mat r c M \<Longrightarrow> length v = c \<Longrightarrow> i < r \<Longrightarrow> mat_vec M v ! i = (\<Sum>k<c. M ! i ! k * v ! k)"
  by (simp add: mat_vec_def is_mat_length dot_sum [of _ c] is_mat_row)

lemma mat_vec_matmul:
  assumes "is_mat n n A" "is_mat n n B" "0 < n" "length v = n"
  shows "mat_vec (matmul A B) v = mat_vec A (mat_vec B v)"
proof (rule nth_equalityI)
  show "length (mat_vec (matmul A B) v) = length (mat_vec A (mat_vec B v))"
    using assms matmul_sq(1) [OF assms(1,2,3)] by (simp add: mat_vec_length is_mat_length)
next
  fix i assume "i < length (mat_vec (matmul A B) v)"
  then have i: "i < n"
    using matmul_sq(1) [OF assms(1,2,3)] by (simp add: mat_vec_length is_mat_length)
  have lB: "length (mat_vec B v) = n" using assms by (simp add: mat_vec_length is_mat_length)
  have "mat_vec (matmul A B) v ! i = (\<Sum>k<n. (\<Sum>l<n. A ! i ! l * B ! l ! k) * v ! k)"
    using mat_vec_nth [OF matmul_sq(1) [OF assms(1,2,3)] assms(4) i]
      matmul_sq(2) [OF assms(1,2,3) i] by simp
  also have "\<dots> = (\<Sum>k<n. \<Sum>l<n. A ! i ! l * (B ! l ! k * v ! k))"
    by (simp add: sum_distrib_right mult.assoc)
  also have "\<dots> = (\<Sum>l<n. \<Sum>k<n. A ! i ! l * (B ! l ! k * v ! k))"
    by (rule sum.swap)
  also have "\<dots> = (\<Sum>l<n. A ! i ! l * (\<Sum>k<n. B ! l ! k * v ! k))"
    by (simp add: sum_distrib_left)
  also have "\<dots> = (\<Sum>l<n. A ! i ! l * mat_vec B v ! l)"
    using mat_vec_nth [OF assms(2,4)] by simp
  also have "\<dots> = mat_vec A (mat_vec B v) ! i"
    using mat_vec_nth [OF assms(1) lB i] by simp
  finally show "mat_vec (matmul A B) v ! i = mat_vec A (mat_vec B v) ! i" .
qed

lemma inner_adjoint:
  assumes "is_mat n n A" "0 < n" "length u = n" "length v = n"
  shows "inner u (mat_vec A v) = inner (mat_vec (dagger A) u) v"
proof -
  have dA: "is_mat n n (dagger A)" using assms by (simp add: dagger_sq(1) [where n = n])
  have "inner u (mat_vec A v) = (\<Sum>i<n. cnj (u ! i) * (\<Sum>k<n. A ! i ! k * v ! k))"
    using assms mat_vec_nth [OF assms(1,4)]
    by (simp add: inner_sum [of _ n] mat_vec_length is_mat_length)
  also have "\<dots> = (\<Sum>i<n. \<Sum>k<n. cnj (u ! i) * A ! i ! k * v ! k)"
    by (simp add: sum_distrib_left mult.assoc)
  also have "\<dots> = (\<Sum>k<n. \<Sum>i<n. cnj (u ! i) * A ! i ! k * v ! k)"
    by (rule sum.swap)
  also have "\<dots> = (\<Sum>k<n. (\<Sum>i<n. cnj (u ! i) * A ! i ! k) * v ! k)"
    by (simp add: sum_distrib_right)
  also have "\<dots> = (\<Sum>k<n. cnj (\<Sum>i<n. dagger A ! k ! i * u ! i) * v ! k)"
  proof (intro sum.cong refl)
    fix k assume "k \<in> {..<n}"
    then have k: "k < n" by simp
    have "(\<Sum>i<n. cnj (u ! i) * A ! i ! k) = cnj (\<Sum>i<n. dagger A ! k ! i * u ! i)"
      using dagger_sq(2) [OF assms(1,2) k] by (simp add: mult.commute)
    then show "(\<Sum>i<n. cnj (u ! i) * A ! i ! k) * v ! k
        = cnj (\<Sum>i<n. dagger A ! k ! i * u ! i) * v ! k" by simp
  qed
  also have "\<dots> = inner (mat_vec (dagger A) u) v"
    using assms mat_vec_nth [OF dA assms(3)] dA
    by (simp add: inner_sum [of _ n] mat_vec_length is_mat_length)
  finally show ?thesis .
qed

lemma psd_conjugate:
  assumes "is_mat n n A" "is_mat n n R" "0 < n" "psd R"
  shows "psd (matmul (matmul A R) (dagger A))"
  unfolding psd_def
proof (intro allI impI)
  fix v :: cvec
  have AR: "is_mat n n (matmul A R)" and dA: "is_mat n n (dagger A)"
    using assms by (simp_all add: matmul_sq(1) [where n = n] dagger_sq(1) [where n = n])
  have M: "is_mat n n (matmul (matmul A R) (dagger A))"
    using AR dA assms(3) by (simp add: matmul_sq(1) [where n = n])
  assume "length v = length (matmul (matmul A R) (dagger A))"
  then have v: "length v = n" using M by (simp add: is_mat_length)
  define w where "w = mat_vec (dagger A) v"
  have w: "length w = n" using dA by (simp add: w_def mat_vec_length is_mat_length)
  have Rw: "length (mat_vec R w) = n" using assms by (simp add: mat_vec_length is_mat_length)
  have "mat_vec (matmul (matmul A R) (dagger A)) v = mat_vec (matmul A R) w"
    using mat_vec_matmul [OF AR dA assms(3) v] by (simp add: w_def)
  also have "\<dots> = mat_vec A (mat_vec R w)"
    using mat_vec_matmul [OF assms(1,2,3) w] .
  finally have "inner v (mat_vec (matmul (matmul A R) (dagger A)) v) = inner v (mat_vec A (mat_vec R w))"
    by simp
  also have "\<dots> = inner w (mat_vec R w)"
    using inner_adjoint [OF assms(1,3) v Rw] by (simp add: w_def)
  finally show "0 \<le> Re (inner v (mat_vec (matmul (matmul A R) (dagger A)) v))"
    using assms(4) w assms(2) by (simp add: psd_def is_mat_length)
qed

lemma hermitian_conjugate:
  assumes "is_mat n n A" "is_mat n n R" "0 < n" "hermitian R"
  shows "hermitian (matmul (matmul A R) (dagger A))"
proof -
  have AR: "is_mat n n (matmul A R)" and dA: "is_mat n n (dagger A)" and dR: "is_mat n n (dagger R)"
    using assms by (simp_all add: matmul_sq(1) [where n = n] dagger_sq(1) [where n = n])
  have "dagger (matmul (matmul A R) (dagger A)) = matmul (dagger (dagger A)) (dagger (matmul A R))"
    using dagger_matmul [OF AR dA assms(3)] .
  also have "\<dots> = matmul A (matmul (dagger R) (dagger A))"
    using dagger_dagger [OF assms(1,3)] dagger_matmul [OF assms(1,2,3)] by simp
  also have "\<dots> = matmul A (matmul R (dagger A))"
    using assms(4) by (simp add: hermitian_def)
  also have "\<dots> = matmul (matmul A R) (dagger A)"
    using matmul_assoc [OF assms(1,2) dA assms(3)] by simp
  finally show ?thesis by (simp add: hermitian_def)
qed

lemma trace_sum: "is_mat n n M \<Longrightarrow> trace M = (\<Sum>i<n. M ! i ! i)"
  by (simp add: trace_def is_mat_length sum_list_sum_nth atLeast0LessThan)

lemma trace_cyclic:
  assumes "is_mat n n A" "is_mat n n B" "0 < n"
  shows "trace (matmul A B) = trace (matmul B A)"
proof -
  have "trace (matmul A B) = (\<Sum>i<n. \<Sum>k<n. A ! i ! k * B ! k ! i)"
    using trace_sum [OF matmul_sq(1) [OF assms(1,2,3)]] matmul_sq(2) [OF assms(1,2,3)] by simp
  also have "\<dots> = (\<Sum>k<n. \<Sum>i<n. A ! i ! k * B ! k ! i)"
    by (rule sum.swap)
  also have "\<dots> = (\<Sum>k<n. \<Sum>i<n. B ! k ! i * A ! i ! k)"
    by (simp add: mult.commute)
  also have "\<dots> = trace (matmul B A)"
    using trace_sum [OF matmul_sq(1) [OF assms(2,1,3)]] matmul_sq(2) [OF assms(2,1,3)] by simp
  finally show ?thesis .
qed

lemma trace_conjugate_unitary:
  assumes "is_mat n n A" "is_mat n n R" "0 < n" "matmul (dagger A) A = eye n"
  shows "trace (matmul (matmul A R) (dagger A)) = trace R"
proof -
  have AR: "is_mat n n (matmul A R)" and dA: "is_mat n n (dagger A)"
    using assms by (simp_all add: matmul_sq(1) [where n = n] dagger_sq(1) [where n = n])
  have "trace (matmul (matmul A R) (dagger A)) = trace (matmul (dagger A) (matmul A R))"
    using trace_cyclic [OF AR dA assms(3)] .
  also have "matmul (dagger A) (matmul A R) = matmul (matmul (dagger A) A) R"
    using matmul_assoc [OF dA assms(1,2,3)] by simp
  also have "\<dots> = R"
    using assms by (simp add: matmul_eye_left)
  finally show ?thesis .
qed

lemma mat_add_sq:
  assumes "is_mat n n A" "is_mat n n B"
  shows "is_mat n n (mat_add A B)"
    and "\<And>i j. i < n \<Longrightarrow> j < n \<Longrightarrow> mat_add A B ! i ! j = A ! i ! j + B ! i ! j"
  using assms by (auto simp: mat_add_def is_mat_def list_all_length)

lemma mat_scale_sq:
  assumes "is_mat n n A"
  shows "is_mat n n (mat_scale c A)"
    and "\<And>i j. i < n \<Longrightarrow> j < n \<Longrightarrow> mat_scale c A ! i ! j = c * A ! i ! j"
  using assms by (auto simp: mat_scale_def is_mat_def list_all_length)

lemma hermitian_nth:
  assumes "is_mat n n A" "0 < n"
  shows "hermitian A \<longleftrightarrow> (\<forall>i<n. \<forall>j<n. cnj (A ! j ! i) = A ! i ! j)"
proof
  assume "hermitian A"
  then have d: "dagger A = A" by (simp add: hermitian_def)
  show "\<forall>i<n. \<forall>j<n. cnj (A ! j ! i) = A ! i ! j"
  proof (intro allI impI)
    fix i j assume "i < n" "j < n"
    then have "dagger A ! i ! j = cnj (A ! j ! i)" by (rule dagger_sq(2) [OF assms])
    then show "cnj (A ! j ! i) = A ! i ! j" unfolding d by simp
  qed
next
  assume a: "\<forall>i<n. \<forall>j<n. cnj (A ! j ! i) = A ! i ! j"
  have "dagger A = A"
  proof (rule mat_eqI [of n n])
    show "is_mat n n (dagger A)" by (rule dagger_sq(1) [OF assms])
    show "is_mat n n A" by (rule assms(1))
  next
    fix i j assume ij: "i < n" "j < n"
    have "dagger A ! i ! j = cnj (A ! j ! i)" using ij by (rule dagger_sq(2) [OF assms])
    also have "\<dots> = A ! i ! j" using a ij by blast
    finally show "dagger A ! i ! j = A ! i ! j" .
  qed
  then show "hermitian A" by (simp add: hermitian_def)
qed

lemma hermitian_add:
  assumes "is_mat n n A" "is_mat n n B" "0 < n" "hermitian A" "hermitian B"
  shows "hermitian (mat_add A B)"
  using assms hermitian_nth [OF assms(1,3)] hermitian_nth [OF assms(2,3)]
    hermitian_nth [OF mat_add_sq(1) [OF assms(1,2)] assms(3)]
  by (simp add: mat_add_sq(2) [where n = n])

lemma hermitian_scale:
  assumes "is_mat n n A" "0 < n" "hermitian A"
  shows "hermitian (mat_scale (complex_of_real c) A)"
  using assms hermitian_nth [OF assms(1,2)]
    hermitian_nth [OF mat_scale_sq(1) [OF assms(1)] assms(2)]
  by (simp add: mat_scale_sq(2) [where n = n])

lemma trace_add:
  assumes "is_mat n n A" "is_mat n n B"
  shows "trace (mat_add A B) = trace A + trace B"
  using assms trace_sum [OF mat_add_sq(1) [OF assms]]
  by (simp add: trace_sum [where n = n] mat_add_sq(2) [where n = n] sum.distrib)

lemma trace_scale:
  assumes "is_mat n n A"
  shows "trace (mat_scale c A) = c * trace A"
  using assms trace_sum [OF mat_scale_sq(1) [OF assms]]
  by (simp add: trace_sum [where n = n] mat_scale_sq(2) [where n = n] sum_distrib_left)

lemma trace_eye: "trace (eye n) = of_nat n"
  using trace_sum [OF eye_is_mat [of n]] by (simp add: eye_nth)

lemma quad_add:
  assumes "is_mat n n A" "is_mat n n B" "length v = n"
  shows "inner v (mat_vec (mat_add A B) v) = inner v (mat_vec A v) + inner v (mat_vec B v)"
proof -
  have "inner v (mat_vec (mat_add A B) v)
      = (\<Sum>i<n. cnj (v ! i) * (\<Sum>k<n. (A ! i ! k + B ! i ! k) * v ! k))"
    using assms mat_vec_nth [OF mat_add_sq(1) [OF assms(1,2)] assms(3)] mat_add_sq(1) [OF assms(1,2)]
    by (simp add: inner_sum [of _ n] mat_vec_length is_mat_length mat_add_sq(2) [where n = n])
  also have "\<dots> = (\<Sum>i<n. cnj (v ! i) * (\<Sum>k<n. A ! i ! k * v ! k))
                  + (\<Sum>i<n. cnj (v ! i) * (\<Sum>k<n. B ! i ! k * v ! k))"
    by (simp add: algebra_simps sum.distrib)
  also have "\<dots> = inner v (mat_vec A v) + inner v (mat_vec B v)"
    using assms mat_vec_nth [OF assms(1,3)] mat_vec_nth [OF assms(2,3)]
    by (simp add: inner_sum [of _ n] mat_vec_length is_mat_length)
  finally show ?thesis .
qed

lemma quad_scale:
  assumes "is_mat n n A" "length v = n"
  shows "inner v (mat_vec (mat_scale c A) v) = c * inner v (mat_vec A v)"
proof -
  have "inner v (mat_vec (mat_scale c A) v)
      = (\<Sum>i<n. cnj (v ! i) * (\<Sum>k<n. c * A ! i ! k * v ! k))"
    using assms mat_vec_nth [OF mat_scale_sq(1) [OF assms(1), of c] assms(2)]
      mat_scale_sq(1) [OF assms(1), of c] mat_scale_sq(2) [OF assms(1), of _ _ c]
    by (simp add: inner_sum [of _ n] mat_vec_length is_mat_length)
  also have "\<dots> = c * (\<Sum>i<n. cnj (v ! i) * (\<Sum>k<n. A ! i ! k * v ! k))"
    by (simp add: sum_distrib_left mult.assoc mult.left_commute)
  also have "\<dots> = c * inner v (mat_vec A v)"
    using assms mat_vec_nth [OF assms(1,2)]
    by (simp add: inner_sum [of _ n] mat_vec_length is_mat_length)
  finally show ?thesis .
qed

lemma psd_add:
  assumes "is_mat n n A" "is_mat n n B" "psd A" "psd B"
  shows "psd (mat_add A B)"
  unfolding psd_def
proof (intro allI impI)
  fix v :: cvec assume "length v = length (mat_add A B)"
  then have v: "length v = n" using mat_add_sq(1) [OF assms(1,2)] by (simp add: is_mat_length)
  show "0 \<le> Re (inner v (mat_vec (mat_add A B) v))"
    using assms v quad_add [OF assms(1,2) v] by (simp add: psd_def is_mat_length)
qed

lemma psd_scale:
  assumes "is_mat n n A" "psd A" "0 \<le> c"
  shows "psd (mat_scale (complex_of_real c) A)"
  unfolding psd_def
proof (intro allI impI)
  fix v :: cvec assume "length v = length (mat_scale (complex_of_real c) A)"
  then have v: "length v = n"
    using mat_scale_sq(1) [OF assms(1), of "complex_of_real c"] by (simp add: is_mat_length)
  show "0 \<le> Re (inner v (mat_vec (mat_scale (complex_of_real c) A) v))"
    using assms v quad_scale [OF assms(1) v] by (simp add: psd_def is_mat_length)
qed

lemma inner_self: "inner v v = complex_of_real (\<Sum>k<length v. (cmod (v ! k))\<^sup>2)"
  by (simp add: inner_sum [of _ "length v"] mult.commute [of "cnj _"] complex_norm_square [symmetric])

lemma mat_vec_eye:
  assumes "length v = n"
  shows "mat_vec (eye n) v = v"
proof (rule nth_equalityI)
  show "length (mat_vec (eye n) v) = length v"
    using assms by (simp add: mat_vec_length eye_def)
next
  fix i assume "i < length (mat_vec (eye n) v)"
  then have i: "i < n" by (simp add: mat_vec_length eye_def)
  have "mat_vec (eye n) v ! i = (\<Sum>k<n. eye n ! i ! k * v ! k)"
    using mat_vec_nth [OF eye_is_mat assms i] .
  also have "\<dots> = (\<Sum>k<n. if k = i then v ! k else 0)"
    by (intro sum.cong refl) (use i in \<open>auto simp: eye_nth\<close>)
  also have "\<dots> = v ! i"
    using i by simp
  finally show "mat_vec (eye n) v ! i = v ! i" .
qed

lemma psd_eye: "psd (eye n)"
  unfolding psd_def
proof (intro allI impI)
  fix v :: cvec assume "length v = length (eye n)"
  then have v: "length v = n" by (simp add: eye_def)
  have "0 \<le> (\<Sum>k<length v. (cmod (v ! k))\<^sup>2)" by (intro sum_nonneg) simp
  then show "0 \<le> Re (inner v (mat_vec (eye n) v))"
    by (simp add: mat_vec_eye [OF v] inner_self)
qed

lemma hermitian_eye: "0 < n \<Longrightarrow> hermitian (eye n)"
  by (simp add: hermitian_def dagger_eye)

lemma matmul_add_distrib_right:
  assumes "is_mat n n A" "is_mat n n B" "is_mat n n R" "0 < n"
  shows "matmul (mat_add A B) R = mat_add (matmul A R) (matmul B R)"
proof (rule mat_eqI [of n n])
  show "is_mat n n (matmul (mat_add A B) R)"
    using assms by (simp add: matmul_sq(1) [where n = n] mat_add_sq(1))
  show "is_mat n n (mat_add (matmul A R) (matmul B R))"
    using assms by (simp add: matmul_sq(1) [where n = n] mat_add_sq(1))
next
  fix i j assume ij: "i < n" "j < n"
  have "matmul (mat_add A B) R ! i ! j = (\<Sum>k<n. (A ! i ! k + B ! i ! k) * R ! k ! j)"
    using matmul_sq(2) [OF mat_add_sq(1) [OF assms(1,2)] assms(3,4) ij] ij
    by (simp add: mat_add_sq(2) [OF assms(1,2)])
  also have "\<dots> = mat_add (matmul A R) (matmul B R) ! i ! j"
    using ij mat_add_sq(2) [OF matmul_sq(1) [OF assms(1,3,4)] matmul_sq(1) [OF assms(2,3,4)] ij]
      matmul_sq(2) [OF assms(1,3,4) ij] matmul_sq(2) [OF assms(2,3,4) ij]
    by (simp add: algebra_simps sum.distrib)
  finally show "matmul (mat_add A B) R ! i ! j = mat_add (matmul A R) (matmul B R) ! i ! j" .
qed

lemma psd_diagonal_entry:
  assumes "is_mat n n R" "psd R" "i < n"
  shows "0 \<le> Re (R ! i ! i)"
proof -
  define e where "e = (replicate n (0::complex))[i := 1]"
  have le: "length e = n" by (simp add: e_def)
  have en: "\<And>k. k < n \<Longrightarrow> e ! k = (if k = i then 1 else 0)"
    using assms(3) by (auto simp: e_def nth_list_update)
  have mv: "mat_vec R e ! k = R ! k ! i" if "k < n" for k
  proof -
    have "mat_vec R e ! k = (\<Sum>l<n. R ! k ! l * (if l = i then 1 else 0))"
      using mat_vec_nth [OF assms(1) le that] en by simp
    also have "\<dots> = (\<Sum>l<n. if l = i then R ! k ! l else 0)"
      by (intro sum.cong) auto
    also have "\<dots> = R ! k ! i" using assms(3) by simp
    finally show ?thesis .
  qed
  have "inner e (mat_vec R e) = (\<Sum>k<n. cnj (e ! k) * mat_vec R e ! k)"
    using le assms(1) by (simp add: inner_sum [of _ n] mat_vec_length is_mat_length)
  also have "\<dots> = (\<Sum>k<n. if k = i then R ! k ! i else 0)"
    by (intro sum.cong) (auto simp: en mv)
  also have "\<dots> = R ! i ! i" using assms(3) by simp
  finally have "inner e (mat_vec R e) = R ! i ! i" .
  moreover have "0 \<le> Re (inner e (mat_vec R e))"
    using assms(1,2) le by (simp add: psd_def is_mat_length)
  ultimately show ?thesis by simp
qed

lemma psd_trace_nonneg:
  assumes "is_mat n n R" "psd R"
  shows "0 \<le> Re (trace R)"
  unfolding trace_sum [OF assms(1)] Re_sum
  by (intro sum_nonneg) (simp add: psd_diagonal_entry [OF assms])

lemma outer_sq:
  assumes "length v = n"
  shows "is_mat n n (outer v (map cnj v))"
    and "\<And>i j. i < n \<Longrightarrow> j < n \<Longrightarrow> outer v (map cnj v) ! i ! j = v ! i * cnj (v ! j)"
  using assms by (auto simp: outer_def is_mat_def list_all_length)

lemma quad_outer:
  assumes "length v = n" "length w = n"
  shows "inner w (mat_vec (outer v (map cnj v)) w) = cnj (inner v w) * inner v w"
proof -
  have "inner w (mat_vec (outer v (map cnj v)) w)
      = (\<Sum>i<n. cnj (w ! i) * (\<Sum>k<n. v ! i * cnj (v ! k) * w ! k))"
    using assms mat_vec_nth [OF outer_sq(1) [OF assms(1)] assms(2)]
      outer_sq(1) [OF assms(1)] outer_sq(2) [OF assms(1)]
    by (simp add: inner_sum [of _ n] mat_vec_length is_mat_length)
  also have "\<dots> = (\<Sum>i<n. (cnj (w ! i) * v ! i) * (\<Sum>k<n. cnj (v ! k) * w ! k))"
    by (simp add: sum_distrib_left mult.assoc)
  also have "\<dots> = (\<Sum>i<n. cnj (w ! i) * v ! i) * (\<Sum>k<n. cnj (v ! k) * w ! k)"
    by (simp add: sum_distrib_right)
  also have "(\<Sum>i<n. cnj (w ! i) * v ! i) = cnj (\<Sum>i<n. cnj (v ! i) * w ! i)"
    by (simp add: mult.commute)
  finally show ?thesis
    using assms by (simp add: inner_sum [of _ n])
qed

lemma outer_valid:
  assumes "length v = 8" "inner v v = 1"
  shows "valid_density (outer v (map cnj v))"
proof -
  have pos: "(0::nat) < 8" by simp
  note m = outer_sq(1) [OF assms(1)] and e = outer_sq(2) [OF assms(1)]
  have h: "hermitian (outer v (map cnj v))"
    unfolding hermitian_nth [OF m pos] using e by (simp add: mult.commute)
  have "trace (outer v (map cnj v)) = (\<Sum>i<8. v ! i * cnj (v ! i))"
    using trace_sum [OF m] e by simp
  also have "\<dots> = inner v v"
    using assms(1) by (simp add: inner_sum [of _ 8] mult.commute)
  finally have t: "trace (outer v (map cnj v)) = 1" using assms(2) by simp
  have p: "psd (outer v (map cnj v))"
    unfolding psd_def
  proof (intro allI impI)
    fix w :: cvec assume "length w = length (outer v (map cnj v))"
    then have w: "length w = 8" using m by (simp add: is_mat_length)
    have "Re (cnj (inner v w) * inner v w) = (Re (inner v w))\<^sup>2 + (Im (inner v w))\<^sup>2"
      by (simp add: power2_eq_square)
    then have "0 \<le> Re (cnj (inner v w) * inner v w)"
      by simp
    then show "0 \<le> Re (inner w (mat_vec (outer v (map cnj v)) w))"
      using quad_outer [OF assms(1) w] by simp
  qed
  show ?thesis using m h t p by (simp add: valid_density_def)
qed

lemma unitary_preserves_inner:
  assumes "is_mat n n A" "0 < n" "matmul (dagger A) A = eye n" "length v = n"
  shows "inner (mat_vec A v) (mat_vec A v) = inner v v"
proof -
  have dA: "is_mat n n (dagger A)" by (rule dagger_sq(1) [OF assms(1,2)])
  have lA: "length (mat_vec A v) = n" using assms(1) by (simp add: mat_vec_length is_mat_length)
  have "inner (mat_vec A v) (mat_vec A v) = inner (mat_vec (dagger A) (mat_vec A v)) v"
    by (rule inner_adjoint [OF assms(1,2) lA assms(4)])
  also have "mat_vec (dagger A) (mat_vec A v) = mat_vec (matmul (dagger A) A) v"
    using mat_vec_matmul [OF dA assms(1,2,4)] by simp
  also have "\<dots> = v"
    using assms(3,4) by (simp add: mat_vec_eye)
  finally show ?thesis .
qed

lemma valid_conjugate_unitary:
  assumes "is_mat 8 8 A" "matmul (dagger A) A = eye 8" "valid_density R"
  shows "valid_density (matmul (matmul A R) (dagger A))"
proof -
  have pos: "(0::nat) < 8" by simp
  have R: "is_mat 8 8 R" "hermitian R" "trace R = 1" "psd R"
    using assms(3) by (simp_all add: valid_density_def)
  have "is_mat 8 8 (matmul (matmul A R) (dagger A))"
    using assms(1) R(1) by (simp add: matmul_sq(1) [where n = 8] dagger_sq(1) [where n = 8])
  moreover have "hermitian (matmul (matmul A R) (dagger A))"
    by (rule hermitian_conjugate [OF assms(1) R(1) pos R(2)])
  moreover have "trace (matmul (matmul A R) (dagger A)) = 1"
    using trace_conjugate_unitary [OF assms(1) R(1) pos assms(2)] R(3) by simp
  moreover have "psd (matmul (matmul A R) (dagger A))"
    by (rule psd_conjugate [OF assms(1) R(1) pos R(4)])
  ultimately show ?thesis by (simp add: valid_density_def)
qed

lemma inner_scaled: "inner v (map (\<lambda>x. c * x) v) = c * inner v v"
  by (simp add: inner_sum [of _ "length v"] sum_distrib_left mult.left_commute)

lemma norm_sq_pos:
  assumes "v \<noteq> replicate (length v) 0"
  shows "0 < (\<Sum>k<length v. (cmod (v ! k))\<^sup>2)"
proof -
  have "\<exists>k<length v. v ! k \<noteq> 0"
  proof (rule ccontr)
    assume "\<not> (\<exists>k<length v. v ! k \<noteq> 0)"
    then have "v = replicate (length v) 0"
      by (intro nth_equalityI) simp_all
    with assms show False by simp
  qed
  then obtain k where k: "k < length v" "v ! k \<noteq> 0" by blast
  have "0 < (cmod (v ! k))\<^sup>2" using k(2) by simp
  also have "\<dots> \<le> (\<Sum>k<length v. (cmod (v ! k))\<^sup>2)"
    using k(1) by (intro member_le_sum) simp_all
  finally show ?thesis .
qed

lemma valid_density_tolerance:
  assumes "valid_density M"
  shows "valid_within_tolerance M"
proof -
  have M: "is_mat 8 8 M" "hermitian M" "trace M = 1" "psd M"
    using assms by (simp_all add: valid_density_def)
  have "- (1 / 10 ^ 8) \<le> lam" if "eigenpair M lam v" for lam v
  proof -
    have v: "length v = length M" "v \<noteq> replicate (length v) 0"
      "mat_vec M v = map (\<lambda>x. complex_of_real lam * x) v"
      using that by (simp_all add: eigenpair_def)
    have "0 \<le> Re (inner v (mat_vec M v))"
      using M(4) v(1) by (simp add: psd_def)
    then have "0 \<le> lam * (\<Sum>k<length v. (cmod (v ! k))\<^sup>2)"
      unfolding v(3) inner_scaled inner_self by simp
    with norm_sq_pos [OF v(2)] have "0 \<le> lam"
      by (simp add: zero_le_mult_iff)
    then show ?thesis by simp
  qed
  then show ?thesis using M by (simp add: valid_within_tolerance_def)
qed

lemma produces_valid_Inr: "valid_density (Q X) \<Longrightarrow> produces_valid (Inr X)"
  by (simp add: produces_valid_def valid_density_tolerance)

lemma projector_facts:
  "is_mat 8 8 (projector_single_qubit 3 0 0)" "is_mat 8 8 (projector_single_qubit 3 0 1)"
  "dagger (projector_single_qubit 3 0 0) = projector_single_qubit 3 0 0"
  "dagger (projector_single_qubit 3 0 1) = projector_single_qubit 3 0 1"
  "matmul (projector_single_qubit 3 0 0) (projector_single_qubit 3 0 0) = projector_single_qubit 3 0 0"
  "matmul (projector_single_qubit 3 0 1) (projector_single_qubit 3 0 1) = projector_single_qubit 3 0 1"
  "mat_add (projector_single_qubit 3 0 0) (projector_single_qubit 3 0 1) = eye 8"
  unfolding projector_0 projector_1
  by (simp_all add: is_mat_def dagger_def matmul_def ncols_def column_def dot_def upt_0_8
      mat_add_def eye_def)

lemma projected_trace:
  assumes "is_mat 8 8 P" "is_mat 8 8 R" "matmul P P = P"
  shows "trace (matmul (matmul P R) P) = trace (matmul P R)"
proof -
  have pos: "(0::nat) < 8" by simp
  have PR: "is_mat 8 8 (matmul P R)" using assms by (simp add: matmul_sq(1) [where n = 8])
  have "trace (matmul (matmul P R) P) = trace (matmul P (matmul P R))"
    by (rule trace_cyclic [OF PR assms(1) pos])
  also have "matmul P (matmul P R) = matmul (matmul P P) R"
    using matmul_assoc [OF assms(1,1,2) pos] by simp
  finally show ?thesis using assms(3) by simp
qed

lemma measure_qubit_valid:
  assumes "valid_density rho"
  shows "\<exists>outcome rho'. measure_qubit u rho 0 3 = Inr (outcome, rho') \<and> valid_density rho'"
proof -
  have pos: "(0::nat) < 8" by simp
  let ?P0 = "projector_single_qubit 3 0 0" and ?P1 = "projector_single_qubit 3 0 1"
  note pf = projector_facts
  have R: "is_mat 8 8 rho" "hermitian rho" "trace rho = 1" "psd rho"
    using assms by (simp_all add: valid_density_def)
  define R0 where "R0 = matmul (matmul ?P0 rho) ?P0"
  define R1 where "R1 = matmul (matmul ?P1 rho) ?P1"
  have c0: "R0 = matmul (matmul ?P0 rho) (dagger ?P0)" and c1: "R1 = matmul (matmul ?P1 rho) (dagger ?P1)"
    by (simp_all only: R0_def R1_def pf(3,4))
  have m: "is_mat 8 8 R0" "is_mat 8 8 R1"
    using R(1) pf(1,2) by (simp_all add: R0_def R1_def matmul_sq(1) [where n = 8] del: One_nat_def)
  have h: "hermitian R0" "hermitian R1"
    unfolding c0 c1
    by (rule hermitian_conjugate [OF pf(1) R(1) pos R(2)], rule hermitian_conjugate [OF pf(2) R(1) pos R(2)])
  have p: "psd R0" "psd R1"
    unfolding c0 c1
    by (rule psd_conjugate [OF pf(1) R(1) pos R(4)], rule psd_conjugate [OF pf(2) R(1) pos R(4)])
  have "trace R0 + trace R1 = trace (matmul ?P0 rho) + trace (matmul ?P1 rho)"
    unfolding R0_def R1_def
    using projected_trace [OF pf(1) R(1) pf(5)] projected_trace [OF pf(2) R(1) pf(6)] by simp
  also have "\<dots> = trace (mat_add (matmul ?P0 rho) (matmul ?P1 rho))"
    using trace_add [of 8 "matmul ?P0 rho" "matmul ?P1 rho"] R(1) pf(1,2)
    by (simp add: matmul_sq(1) [where n = 8] del: One_nat_def)
  also have "\<dots> = trace (matmul (mat_add ?P0 ?P1) rho)"
    using matmul_add_distrib_right [OF pf(1,2) R(1) pos] by simp
  also have "\<dots> = 1"
    unfolding pf(7) using R(1,3) by (simp add: matmul_eye_left)
  finally have tsum: "trace R0 + trace R1 = 1" .
  define p_0 where "p_0 = Re (trace R0)"
  define p_1 where "p_1 = Re (trace R1)"
  have nonneg: "0 \<le> p_0" "0 \<le> p_1"
    unfolding p_0_def p_1_def using psd_trace_nonneg [OF m(1) p(1)] psd_trace_nonneg [OF m(2) p(2)]
    by simp_all
  have total: "p_0 + p_1 = 1"
    unfolding p_0_def p_1_def using arg_cong [OF tsum, of Re] by simp
  define mixed where "mixed = mat_add R0 R1"
  have mx: "is_mat 8 8 mixed" "hermitian mixed" "psd mixed" "trace mixed = 1"
    unfolding mixed_def
    using mat_add_sq(1) [OF m] hermitian_add [OF m pos h] psd_add [OF m p] trace_add [OF m] tsum
    by simp_all
  define depol where "depol = mat_scale (1 / of_nat (2 ^ 3)) (eye (2 ^ 3))"
  have dp_eq: "depol = mat_scale (complex_of_real (1 / 8)) (eye 8)"
    by (simp add: depol_def)
  have dp: "is_mat 8 8 depol" "hermitian depol" "psd depol" "trace depol = 1"
    unfolding dp_eq
    using mat_scale_sq(1) [OF eye_is_mat [of 8], where c = "complex_of_real (1 / 8)"]
      hermitian_scale [OF eye_is_mat [of 8] pos hermitian_eye [OF pos], where c = "1 / 8"]
      psd_scale [OF eye_is_mat [of 8] psd_eye, where c = "1 / 8"]
      trace_scale [OF eye_is_mat [of 8], where c = "complex_of_real (1 / 8)"]
    by (simp_all add: trace_eye)
  define post where "post = mat_add (mat_scale (1 - 0.1) mixed) (mat_scale 0.1 depol)"
  have post_eq: "post = mat_add (mat_scale (complex_of_real (9 / 10)) mixed)
       (mat_scale (complex_of_real (1 / 10)) depol)"
    by (simp add: post_def)
  have s1: "is_mat 8 8 (mat_scale (complex_of_real (9 / 10)) mixed)"
    "hermitian (mat_scale (complex_of_real (9 / 10)) mixed)"
    "psd (mat_scale (complex_of_real (9 / 10)) mixed)"
    "trace (mat_scale (complex_of_real (9 / 10)) mixed) = 9 / 10"
    using mat_scale_sq(1) [OF mx(1), where c = "complex_of_real (9 / 10)"]
      hermitian_scale [OF mx(1) pos mx(2), where c = "9 / 10"]
      psd_scale [OF mx(1,3), where c = "9 / 10"]
      trace_scale [OF mx(1), where c = "complex_of_real (9 / 10)"] mx(4)
    by simp_all
  have s2: "is_mat 8 8 (mat_scale (complex_of_real (1 / 10)) depol)"
    "hermitian (mat_scale (complex_of_real (1 / 10)) depol)"
    "psd (mat_scale (complex_of_real (1 / 10)) depol)"
    "trace (mat_scale (complex_of_real (1 / 10)) depol) = 1 / 10"
    using mat_scale_sq(1) [OF dp(1), where c = "complex_of_real (1 / 10)"]
      hermitian_scale [OF dp(1) pos dp(2), where c = "1 / 10"]
      psd_scale [OF dp(1,3), where c = "1 / 10"]
      trace_scale [OF dp(1), where c = "complex_of_real (1 / 10)"] dp(4)
    by simp_all
  have "trace (mat_add (mat_scale (complex_of_real (9 / 10)) mixed)
       (mat_scale (complex_of_real (1 / 10)) depol)) = 9 / 10 + 1 / 10"
    using trace_add [OF s1(1) s2(1)] unfolding s1(4) s2(4) .
  then have tp: "trace (mat_add (mat_scale (complex_of_real (9 / 10)) mixed)
       (mat_scale (complex_of_real (1 / 10)) depol)) = 1"
    by simp
  have "valid_density post"
    unfolding post_eq valid_density_def
    using mat_add_sq(1) [OF s1(1) s2(1)] hermitian_add [OF s1(1) s2(1) pos s1(2) s2(2)]
      psd_add [OF s1(1) s2(1) s1(3) s2(3)] tp
    by (intro conjI)
  moreover have "measure_qubit u rho 0 3 = Inr (if u < p_0 then 0 else 1, post)"
    using R(1) nonneg total
    by (simp add: measure_qubit_def Let_def R0_def [symmetric] R1_def [symmetric]
        p_0_def [symmetric] p_1_def [symmetric] mixed_def [symmetric] post_eq dp_eq
        del: One_nat_def)
  ultimately show ?thesis by blast
qed

lemma half_plus_half: "1 / complex_of_real (sqrt 2) * (1 / complex_of_real (sqrt 2)) = 1 / 2"
  by (simp flip: of_real_mult)

lemma plus_zero_zero_unit: "length plus_zero_zero = 8" "inner plus_zero_zero plus_zero_zero = 1"
  by (simp_all add: plus_zero_zero_def inner_def dot_def flip: of_real_mult)

lemma prepare_ghz_state_outer:
  "prepare_ghz_state 3 = outer plus_zero_zero (map cnj plus_zero_zero)"
  unfolding prepare_ghz_state_3
  by (simp add: plus_zero_zero_def outer_def flip: of_real_mult)

lemma f_alg_valid: "valid_density (Q (morphism_1_circuit_compilation st))"
  using outer_valid [OF plus_zero_zero_unit]
  by (simp add: morphism_1_circuit_compilation_def N_QUBITS_def prepare_ghz_state_outer)

lemma f_info_valid:
  assumes "valid_density (Q st)" "7 \<le> length (C st)"
  shows "produces_valid (morphism_2_syndrome_encoding u st)"
proof -
  from measure_qubit_valid [OF assms(1), of u] obtain outcome Q_2 where
    m: "measure_qubit u (Q st) 0 N_QUBITS = Inr (outcome, Q_2)" and v: "valid_density Q_2"
    by (auto simp: N_QUBITS_def)
  from f_info_accepts [OF assms(2) m] obtain C_2 where
    "morphism_2_syndrome_encoding u st =
       Inr \<lparr> C = C_2, Q = Q_2, morphisms_applied = insert ''f_info'' (morphisms_applied st),
             points = None \<rparr>" by blast
  then show ?thesis using v by (simp add: produces_valid_Inr)
qed

lemma floquet_power_unitary:
  assumes "expm_contract expm"
  shows "is_mat 8 8 (mat_pow (U_floquet expm) 5)" "is_mat 8 8 (mat_pow (U_floquet_dag expm) 5)"
    "matmul (dagger (mat_pow (U_floquet expm) 5)) (mat_pow (U_floquet expm) 5) = eye 8"
    "matmul (dagger (mat_pow (U_floquet_dag expm) 5)) (mat_pow (U_floquet_dag expm) 5) = eye 8"
proof -
  note ff = floquet_facts [OF assms]
  have pos: "(0::nat) < 8" by simp
  show "is_mat 8 8 (mat_pow (U_floquet expm) 5)" "is_mat 8 8 (mat_pow (U_floquet_dag expm) 5)"
    using ff by (simp_all add: mat_pow_is_mat)
  have d1: "dagger (mat_pow (U_floquet expm) 5) = mat_pow (U_floquet_dag expm) 5"
    using dagger_mat_pow [OF ff(1) pos] ff(5) by simp
  have "dagger (U_floquet_dag expm) = U_floquet expm"
    using dagger_dagger [OF ff(1) pos] ff(5) by simp
  then have d2: "dagger (mat_pow (U_floquet_dag expm) 5) = mat_pow (U_floquet expm) 5"
    using dagger_mat_pow [OF ff(2) pos] by simp
  show "matmul (dagger (mat_pow (U_floquet expm) 5)) (mat_pow (U_floquet expm) 5) = eye 8"
    unfolding d1 by (rule mat_pow_inverse [OF ff(1,2) pos ff(3)])
  show "matmul (dagger (mat_pow (U_floquet_dag expm) 5)) (mat_pow (U_floquet_dag expm) 5) = eye 8"
    unfolding d2 by (rule mat_pow_inverse [OF ff(2,1) pos ff(4)])
qed

lemma f_dyn_valid:
  assumes "expm_contract expm" "valid_density (Q st)"
  shows "produces_valid (morphism_3_arnold_cat expm st)"
proof -
  note fu = floquet_power_unitary [OF assms(1)]
  have m: "is_mat 8 8 (Q st)" using assms(2) by (simp add: valid_density_def)
  have "valid_density (matmul (matmul (mat_pow (U_floquet expm) 5) (Q st))
      (dagger (mat_pow (U_floquet expm) 5)))"
    by (rule valid_conjugate_unitary [OF fu(1,3) assms(2)])
  then show ?thesis
    using m
    by (simp add: morphism_3_arnold_cat_def Let_def DIM_HILBERT_def N_QUBITS_def
        kicked_ising_evolution_unfold [unfolded N_QUBITS_def] produces_valid_Inr)
qed

lemma f_dyn_inv_unfold:
  "is_mat 8 8 (Q st) \<Longrightarrow> f_dyn_inv expm st =
     Inr \<lparr> C = unpermute_bits (unmix_bits (C st)),
           Q = matmul (matmul (mat_pow (U_floquet_dag expm) 5) (Q st))
                 (dagger (mat_pow (U_floquet_dag expm) 5)),
           morphisms_applied = morphisms_applied st - {''f_dyn''}, points = None \<rparr>"
  by (simp add: f_dyn_inv_def Let_def DIM_HILBERT_def N_QUBITS_def N_KICKS_def U_floquet_dag_def)

lemma f_dyn_inv_valid:
  assumes "expm_contract expm" "valid_density (Q st)"
  shows "produces_valid (f_dyn_inv expm st)"
proof -
  note fu = floquet_power_unitary [OF assms(1)]
  have m: "is_mat 8 8 (Q st)" using assms(2) by (simp add: valid_density_def)
  have "valid_density (matmul (matmul (mat_pow (U_floquet_dag expm) 5) (Q st))
      (dagger (mat_pow (U_floquet_dag expm) 5)))"
    by (rule valid_conjugate_unitary [OF fu(2,4) assms(2)])
  then show ?thesis
    by (simp add: f_dyn_inv_unfold [OF m] produces_valid_Inr)
qed

lemma f_geom_valid:
  assumes "valid_density (Q st)" "C st \<noteq> []" "list_all (\<lambda>b. b = 0 \<or> b = 1) (C st)"
  shows "produces_valid (morphism_4_disk_to_annulus sampler st n_points)"
  using assms
  by (simp add: morphism_4_disk_to_annulus_def bits_to_points_def Let_def produces_valid_Inr)

lemma f_geom_inv_valid:
  assumes "valid_density (Q st)"
  shows "produces_valid (Inr (f_geom_inv st))"
  using assms by (simp add: f_geom_inv_def Let_def produces_valid_Inr)

lemma decode_syndromes_ok:
  "2 * (i + length syns) \<le> length C_inv + 1 \<Longrightarrow>
     \<exists>C'. decode_syndromes C_inv i syns = Inr C' \<and> length C' = length C_inv"
proof (induction syns arbitrary: C_inv i)
  case Nil
  then show ?case by simp
next
  case (Cons syn rest)
  let ?D = "C_inv[2 * i := (C_inv ! (2 * i) - syn) mod 2]"
  from Cons.prems have inb: "2 * i < length C_inv" by simp
  from Cons.prems have "2 * (Suc i + length rest) \<le> length ?D + 1" by simp
  from Cons.IH [OF this] obtain C' where
    "decode_syndromes ?D (Suc i) rest = Inr C'" "length C' = length ?D" by blast
  with inb show ?case by simp
qed

lemma is_mat_square: "is_mat n n M \<Longrightarrow> is_square M"
  by (simp add: is_square_def is_mat_def)

lemma f_info_inv_unfold:
  assumes "is_mat 8 8 (Q st)" "7 \<le> length (C st)"
  shows "\<exists>C_dec. length C_dec = length (C st) \<and> f_info_inv eigh st =
     Inr \<lparr> C = C_dec,
           Q = outer (dominant_eigenvector eigh (Q st)) (map cnj (dominant_eigenvector eigh (Q st))),
           morphisms_applied = morphisms_applied st - {''f_info''}, points = None \<rparr>"
proof -
  have "2 * (0 + length (map parity (syndrome_blocks (C st)))) \<le> length (C st) + 1"
    using assms(2) by (simp add: syndrome_blocks_def)
  from decode_syndromes_ok [OF this] obtain C' where
    d: "decode_syndromes (C st) 0 (map parity (syndrome_blocks (C st))) = Inr C'"
    "length C' = length (C st)" by blast
  have ne: "Q st \<noteq> []" using assms(1) by (auto simp: is_mat_def)
  show ?thesis
    using d ne is_mat_square [OF assms(1)]
    by (intro exI [of _ "C'[0 := 0]"]) (simp add: f_info_inv_def Let_def)
qed

lemma f_info_inv_valid:
  assumes "eigh_normalized eigh" "is_mat 8 8 (Q st)" "7 \<le> length (C st)"
  shows "produces_valid (f_info_inv eigh st)"
proof -
  have d: "length (dominant_eigenvector eigh (Q st)) = 8"
    "inner (dominant_eigenvector eigh (Q st)) (dominant_eigenvector eigh (Q st)) = 1"
    using assms(1,2) by (simp_all add: eigh_normalized_def)
  from f_info_inv_unfold [OF assms(2,3), of eigh] obtain C_dec where
    "f_info_inv eigh st =
     Inr \<lparr> C = C_dec,
           Q = outer (dominant_eigenvector eigh (Q st)) (map cnj (dominant_eigenvector eigh (Q st))),
           morphisms_applied = morphisms_applied st - {''f_info''}, points = None \<rparr>" by blast
  then show ?thesis using outer_valid [OF d] by (simp add: produces_valid_Inr)
qed

lemma rev_upt_1_3: "rev [1..<3] = [2, 1]"
  unfolding upt_1_3 by simp

lemma H_full_value:
  "kron hadamard (eye 4) =
     (let h = 1 / complex_of_real (sqrt 2) in
      [[h,0,0,0,h,0,0,0], [0,h,0,0,0,h,0,0], [0,0,h,0,0,0,h,0], [0,0,0,h,0,0,0,h],
       [h,0,0,0,-h,0,0,0], [0,h,0,0,0,-h,0,0], [0,0,h,0,0,0,-h,0], [0,0,0,h,0,0,0,-h]])"
  by (simp add: kron_def hadamard_def eye_def upt_0_4 Let_def)

lemma H_full_unitary:
  "is_mat 8 8 (kron hadamard (eye 4))"
  "matmul (dagger (kron hadamard (eye 4))) (kron hadamard (eye 4)) = eye 8"
  unfolding H_full_value Let_def
  by (simp_all add: is_mat_def dagger_def matmul_def ncols_def column_def dot_def upt_0_8 eye_def
      flip: of_real_mult)

lemma cnot_0_1_unitary:
  "is_mat 8 8 (cnot_gate 3 0 1)"
  "matmul (dagger (cnot_gate 3 0 1)) (cnot_gate 3 0 1) = eye 8"
  unfolding cnot_0_1
  by (simp_all add: is_mat_def dagger_def matmul_def ncols_def column_def dot_def upt_0_8 eye_def)

lemma f_alg_inv_unfold:
  assumes "is_mat 8 8 (Q st)"
  shows "f_alg_inv eigh st =
     Inr \<lparr> C = replicate 8 0,
           Q = outer (mat_vec (kron hadamard (eye 4))
                        (mat_vec (cnot_gate 3 0 1) (dominant_eigenvector eigh (Q st))))
                     (map cnj (mat_vec (kron hadamard (eye 4))
                        (mat_vec (cnot_gate 3 0 1) (dominant_eigenvector eigh (Q st))))),
           morphisms_applied = {}, points = None \<rparr>"
proof -
  have d: "(2::nat) ^ 3 = 8" "(2::nat) ^ (3 - 1) = 4" by simp_all
  have l: "length (Q st) = 8" using assms by (simp add: is_mat_def)
  show ?thesis
    using is_mat_square [OF assms] l
    unfolding f_alg_inv_def N_QUBITS_def N_BITS_def d rev_upt_1_3 Let_def
    by simp
qed

lemma f_alg_inv_valid:
  assumes "eigh_normalized eigh" "is_mat 8 8 (Q st)"
  shows "produces_valid (f_alg_inv eigh st)"
proof -
  have pos: "(0::nat) < 8" by simp
  define d where "d = dominant_eigenvector eigh (Q st)"
  define c where "c = mat_vec (cnot_gate 3 0 1) d"
  define psi where "psi = mat_vec (kron hadamard (eye 4)) c"
  have dl: "length d = 8" "inner d d = 1"
    using assms by (simp_all add: eigh_normalized_def d_def)
  have cl: "length c = 8" "inner c c = 1"
    using unitary_preserves_inner [OF cnot_0_1_unitary(1) pos cnot_0_1_unitary(2) dl(1)] dl(2)
      cnot_0_1_unitary(1)
    by (simp_all add: c_def mat_vec_length is_mat_length)
  have pl: "length psi = 8" "inner psi psi = 1"
    using unitary_preserves_inner [OF H_full_unitary(1) pos H_full_unitary(2) cl(1)] cl(2)
      H_full_unitary(1)
    by (simp_all add: psi_def mat_vec_length is_mat_length)
  show ?thesis
    using outer_valid [OF pl]
    by (simp add: f_alg_inv_unfold [OF assms(2)] produces_valid_Inr psi_def c_def d_def)
qed

lemma length_unmix_bits: "length (unmix_bits bits) = length bits"
  by (simp add: unmix_bits_def Let_def)

lemma length_foldl_update:
  "length (foldl (\<lambda>acc i. acc[f i := g i]) xs is) = length xs"
  by (induction "is" arbitrary: xs) simp_all

lemma length_unpermute_bits: "length (unpermute_bits bits) = length bits"
  by (simp add: unpermute_bits_def Let_def length_foldl_update)

lemma phi_valid:
  assumes "expm_contract expm" "eigh_normalized eigh" "valid_density (Q st)" "length (C st) = 8"
  shows "produces_valid (phi_closing_isomorphism expm eigh st)"
proof -
  define X3 where "X3 = f_geom_inv st"
  have q3: "Q X3 = Q st" and c3: "C X3 = C st"
    by (simp_all add: X3_def f_geom_inv_def Let_def)
  have m3: "is_mat 8 8 (Q X3)" using assms(3) q3 by (simp add: valid_density_def)
  define X2 where "X2 = \<lparr> C = unpermute_bits (unmix_bits (C X3)),
           Q = matmul (matmul (mat_pow (U_floquet_dag expm) 5) (Q X3))
                 (dagger (mat_pow (U_floquet_dag expm) 5)),
           morphisms_applied = morphisms_applied X3 - {''f_dyn''}, points = None \<rparr>"
  have s2: "f_dyn_inv expm X3 = Inr X2"
    by (simp add: f_dyn_inv_unfold [OF m3] X2_def)
  have "produces_valid (f_dyn_inv expm X3)"
    using f_dyn_inv_valid [OF assms(1)] assms(3) q3 by simp
  then have m2: "is_mat 8 8 (Q X2)"
    by (simp add: s2 produces_valid_def valid_density_def)
  have c2: "7 \<le> length (C X2)"
    using assms(4) by (simp add: X2_def c3 length_unpermute_bits length_unmix_bits)
  from f_info_inv_unfold [OF m2 c2, of eigh] obtain X1 where
    s1: "f_info_inv eigh X2 = Inr X1"
    and q1: "Q X1 = outer (dominant_eigenvector eigh (Q X2)) (map cnj (dominant_eigenvector eigh (Q X2)))"
    by force
  have "length (dominant_eigenvector eigh (Q X2)) = 8"
    using assms(2) m2 by (simp add: eigh_normalized_def)
  then have m1: "is_mat 8 8 (Q X1)"
    unfolding q1 by (rule outer_sq(1))
  have "phi_closing_isomorphism expm eigh st = f_alg_inv eigh X1"
    using s2 s1 by (simp add: phi_closing_isomorphism_def Let_def X3_def [symmetric])
  then show ?thesis
    using f_alg_inv_valid [OF assms(2) m1] by simp
qed

lemma argmax_from_spec:
  assumes "bi < i" "i + length xs = length ys" "ys ! bi = b" "\<forall>k<i. ys ! k \<le> b" "drop i ys = xs"
  shows "argmax_from bi b i xs < length ys
         \<and> (\<forall>k<length ys. ys ! k \<le> ys ! (argmax_from bi b i xs))"
  using assms
proof (induction xs arbitrary: bi b i)
  case Nil
  then show ?case by simp
next
  case (Cons x xs)
  have i: "i < length ys" using Cons.prems(2) by simp
  have x: "ys ! i = x" using Cons.prems(5) i by (metis nth_via_drop)
  have d: "drop (Suc i) ys = xs" using Cons.prems(5) by (metis drop_Suc tl_drop list.sel(3))
  show ?case
  proof (cases "b < x")
    case True
    have "\<forall>k<Suc i. ys ! k \<le> x"
      using Cons.prems(4) True x by (auto simp: less_Suc_eq)
    from Cons.IH [of i "Suc i" x, OF _ _ x this d] Cons.prems(2) True
    show ?thesis by simp
  next
    case False
    have "\<forall>k<Suc i. ys ! k \<le> b"
      using Cons.prems(4) False x by (auto simp: less_Suc_eq)
    from Cons.IH [of bi "Suc i" b, OF _ _ Cons.prems(3) this d] Cons.prems(1,2) False
    show ?thesis by simp
  qed
qed

lemma argmax_spec:
  assumes "xs \<noteq> []"
  shows "argmax xs < length xs \<and> (\<forall>k<length xs. xs ! k \<le> xs ! argmax xs)"
proof -
  obtain x rest where xs: "xs = x # rest" using assms by (cases xs) auto
  have "argmax_from 0 x 1 rest < length xs
         \<and> (\<forall>k<length xs. xs ! k \<le> xs ! (argmax_from 0 x 1 rest))"
    by (rule argmax_from_spec) (simp_all add: xs)
  then show ?thesis by (simp add: argmax_def xs)
qed

lemma diag_mat_sq:
  assumes "length w = n"
  shows "is_mat n n (diag_mat w)"
    and "\<And>i j. i < n \<Longrightarrow> j < n \<Longrightarrow> diag_mat w ! i ! j = (if i = j then complex_of_real (w ! i) else 0)"
  using assms by (auto simp: diag_mat_def is_mat_def list_all_length)

lemma sum_delta_left: "j < (n::nat) \<Longrightarrow> (\<Sum>k<n. (if k = j then f k else 0)) = (f j :: complex)"
  by (simp add: sum.delta)

lemma dominant_eigenvector_rank_one:
  fixes a b :: real
  assumes psi: "length psi = 8" "inner psi psi = 1" and a: "0 < a"
    and M: "is_mat 8 8 M"
    and Mij: "\<And>i j. i < 8 \<Longrightarrow> j < 8 \<Longrightarrow>
       M ! i ! j = complex_of_real a * psi ! i * cnj (psi ! j) + (if i = j then complex_of_real b else 0)"
    and eigh: "eigh_contract eigh M"
  shows "\<exists>z. cmod z = 1 \<and> dominant_eigenvector eigh M = map (\<lambda>x. z * x) psi"
proof -
  have pos: "(0::nat) < 8" by simp
  obtain w V where wV: "eigh M = (w, V)" by (cases "eigh M")
  have w: "length w = 8" and V: "is_mat 8 8 V"
    and VdV: "matmul (dagger V) V = eye 8" and VVd: "matmul V (dagger V) = eye 8"
    and MV: "matmul M V = matmul V (diag_mat w)"
    using eigh by (simp_all add: eigh_contract_def wV)
  define z where "z j = (\<Sum>k<8. cnj (psi ! k) * V ! k ! j)" for j
  have nrm: "(\<Sum>k<8. cnj (psi ! k) * psi ! k) = 1"
    using psi by (simp add: inner_sum [of _ 8])
  have E: "complex_of_real a * psi ! i * z j + complex_of_real b * V ! i ! j
           = complex_of_real (w ! j) * V ! i ! j" if ij: "i < 8" "j < 8" for i j
  proof -
    have "matmul M V ! i ! j = (\<Sum>k<8. M ! i ! k * V ! k ! j)"
      by (rule matmul_sq(2) [OF M V pos ij])
    also have "\<dots> = (\<Sum>k<8. complex_of_real a * psi ! i * (cnj (psi ! k) * V ! k ! j)
                          + (if k = i then complex_of_real b * V ! k ! j else 0))"
      by (intro sum.cong refl) (use ij in \<open>auto simp: Mij algebra_simps\<close>)
    also have "\<dots> = complex_of_real a * psi ! i * z j + complex_of_real b * V ! i ! j"
      unfolding sum.distrib sum_delta_left [OF ij(1)] z_def by (simp add: sum_distrib_left)
    finally have l: "matmul M V ! i ! j
        = complex_of_real a * psi ! i * z j + complex_of_real b * V ! i ! j" .
    have "matmul V (diag_mat w) ! i ! j = (\<Sum>k<8. V ! i ! k * diag_mat w ! k ! j)"
      by (rule matmul_sq(2) [OF V diag_mat_sq(1) [OF w] pos ij])
    also have "\<dots> = (\<Sum>k<8. if k = j then V ! i ! k * complex_of_real (w ! k) else 0)"
      by (intro sum.cong refl) (use ij in \<open>auto simp: diag_mat_sq(2) [OF w]\<close>)
    also have "\<dots> = V ! i ! j * complex_of_real (w ! j)"
      by (rule sum_delta_left [OF ij(2)])
    finally show ?thesis using l MV by (simp add: mult.commute)
  qed
  have unit_col: "(\<Sum>k<8. cnj (V ! k ! j) * V ! k ! j) = 1" if j: "j < 8" for j
  proof -
    have "matmul (dagger V) V ! j ! j = (\<Sum>k<8. dagger V ! j ! k * V ! k ! j)"
      by (rule matmul_sq(2) [OF dagger_sq(1) [OF V pos] V pos j j])
    also have "\<dots> = (\<Sum>k<8. cnj (V ! k ! j) * V ! k ! j)"
      by (intro sum.cong refl) (use j in \<open>simp add: dagger_sq(2) [OF V pos]\<close>)
    finally show ?thesis unfolding VdV using j by (simp add: eye_nth)
  qed
  have expand: "psi ! i = (\<Sum>j<8. V ! i ! j * cnj (z j))" if i: "i < 8" for i
  proof -
    have "(\<Sum>j<8. V ! i ! j * cnj (z j)) = (\<Sum>j<8. \<Sum>k<8. V ! i ! j * cnj (V ! k ! j) * psi ! k)"
      by (simp add: z_def sum_distrib_left mult_ac)
    also have "\<dots> = (\<Sum>k<8. \<Sum>j<8. V ! i ! j * cnj (V ! k ! j) * psi ! k)"
      by (rule sum.swap)
    also have "\<dots> = (\<Sum>k<8. (\<Sum>j<8. V ! i ! j * dagger V ! j ! k) * psi ! k)"
      by (intro sum.cong refl) (simp add: sum_distrib_right dagger_sq(2) [OF V pos])
    also have "\<dots> = (\<Sum>k<8. matmul V (dagger V) ! i ! k * psi ! k)"
      by (intro sum.cong refl) (use i in \<open>simp add: matmul_sq(2) [OF V dagger_sq(1) [OF V pos] pos]\<close>)
    also have "\<dots> = (\<Sum>k<8. if k = i then psi ! k else 0)"
      unfolding VVd by (intro sum.cong refl) (use i in \<open>auto simp: eye_nth\<close>)
    also have "\<dots> = psi ! i" by (rule sum_delta_left [OF i])
    finally show ?thesis by simp
  qed
  have some_z: "\<exists>j<8. z j \<noteq> 0"
  proof (rule ccontr)
    assume "\<not> (\<exists>j<8. z j \<noteq> 0)"
    then have "\<And>i. i < 8 \<Longrightarrow> psi ! i = 0" using expand by simp
    then have "(\<Sum>k<8. cnj (psi ! k) * psi ! k) = 0" by simp
    with nrm show False by simp
  qed
  have top: "w ! j = a + b" if j: "j < 8" and zj: "z j \<noteq> 0" for j
  proof -
    have pt: "cnj (psi ! i) * (complex_of_real a * psi ! i * z j + complex_of_real b * V ! i ! j)
        = (complex_of_real a * z j) * (cnj (psi ! i) * psi ! i)
          + complex_of_real b * (cnj (psi ! i) * V ! i ! j)" for i
      by (simp add: algebra_simps)
    have "complex_of_real (a + b) * z j
        = complex_of_real a * z j * (\<Sum>i<8. cnj (psi ! i) * psi ! i) + complex_of_real b * z j"
      unfolding nrm by (simp add: algebra_simps)
    also have "\<dots> = (\<Sum>i<8. (complex_of_real a * z j) * (cnj (psi ! i) * psi ! i))
          + (\<Sum>i<8. complex_of_real b * (cnj (psi ! i) * V ! i ! j))"
      by (simp only: sum_distrib_left z_def)
    also have "\<dots> = (\<Sum>i<8. cnj (psi ! i) * (complex_of_real a * psi ! i * z j + complex_of_real b * V ! i ! j))"
      by (simp only: pt sum.distrib)
    also have "\<dots> = (\<Sum>i<8. cnj (psi ! i) * (complex_of_real (w ! j) * V ! i ! j))"
      by (rule sum.cong [OF refl]) (simp only: E [OF _ j] lessThan_iff)
    also have "\<dots> = (\<Sum>i<8. complex_of_real (w ! j) * (cnj (psi ! i) * V ! i ! j))"
      by (rule sum.cong [OF refl]) (simp only: mult.left_commute)
    also have "\<dots> = complex_of_real (w ! j) * z j"
      by (simp only: sum_distrib_left z_def)
    finally have "complex_of_real (a + b) * z j = complex_of_real (w ! j) * z j" .
    with zj have "complex_of_real (a + b) = complex_of_real (w ! j)" by simp
    then show ?thesis by (simp only: of_real_eq_iff)
  qed
  have bottom: "w ! j = b" if j: "j < 8" and zj: "z j = 0" for j
  proof -
    have "\<exists>i<8. V ! i ! j \<noteq> 0"
    proof (rule ccontr)
      assume "\<not> (\<exists>i<8. V ! i ! j \<noteq> 0)"
      then have "(\<Sum>k<8. cnj (V ! k ! j) * V ! k ! j) = 0" by simp
      with unit_col [OF j] show False by simp
    qed
    then obtain i where i: "i < 8" "V ! i ! j \<noteq> 0" by blast
    from E [OF i(1) j] zj have "complex_of_real b * V ! i ! j = complex_of_real (w ! j) * V ! i ! j"
      by simp
    with i(2) have "complex_of_real b = complex_of_real (w ! j)" by simp
    then show ?thesis by (simp only: of_real_eq_iff)
  qed
  define js where "js = argmax w"
  have wne: "w \<noteq> []" using w by auto
  have js: "js < 8" and mx: "\<And>k. k < 8 \<Longrightarrow> w ! k \<le> w ! js"
    using argmax_spec [OF wne] w by (simp_all add: js_def)
  obtain j0 where j0: "j0 < 8" "z j0 \<noteq> 0" using some_z by blast
  have "a + b \<le> w ! js" using mx [OF j0(1)] top [OF j0] by simp
  then have zjs: "z js \<noteq> 0" using bottom [OF js] a by auto
  have wjs: "w ! js = a + b" by (rule top [OF js zjs])
  have col: "V ! i ! js = z js * psi ! i" if i: "i < 8" for i
  proof -
    have "complex_of_real a * psi ! i * z js + complex_of_real b * V ! i ! js
           = complex_of_real (a + b) * V ! i ! js"
      using E [OF i js] wjs by simp
    then have "complex_of_real a * (psi ! i * z js) = complex_of_real a * V ! i ! js"
      by (simp add: algebra_simps)
    then have "psi ! i * z js = V ! i ! js" using a by simp
    then show ?thesis by (simp add: mult.commute)
  qed
  have "1 = (\<Sum>k<8. cnj (V ! k ! js) * V ! k ! js)" using unit_col [OF js] by simp
  also have "\<dots> = (\<Sum>k<8. (cnj (z js) * z js) * (cnj (psi ! k) * psi ! k))"
    by (intro sum.cong refl) (simp add: col algebra_simps)
  also have "\<dots> = cnj (z js) * z js"
    unfolding sum_distrib_left [symmetric] nrm by simp
  finally have "cnj (z js) * z js = 1" by simp
  then have "z js * cnj (z js) = 1" by (simp add: mult.commute)
  then have "complex_of_real ((cmod (z js))\<^sup>2) = 1"
    by (simp only: complex_norm_square)
  then have "(cmod (z js))\<^sup>2 = 1" by (simp only: of_real_eq_1_iff)
  then have cm: "cmod (z js) = 1"
    using norm_ge_zero [of "z js"] by (auto simp add: power2_eq_1_iff)
  have "dominant_eigenvector eigh M = column V js"
    by (simp add: dominant_eigenvector_def wV js_def)
  also have "\<dots> = map (\<lambda>x. z js * x) psi"
    by (rule nth_equalityI) (use V psi col in \<open>simp_all add: length_column is_mat_length column_nth\<close>)
  finally show ?thesis using cm by blast
qed

lemma measure_plus_state:
  "measure_qubit u (prepare_ghz_state 3) 0 3 =
     Inr (if u < 1 then 0 else 1,
       [[37/80,0,0,0,9/20,0,0,0], [0,1/80,0,0,0,0,0,0], [0,0,1/80,0,0,0,0,0], [0,0,0,1/80,0,0,0,0],
        [9/20,0,0,0,37/80,0,0,0], [0,0,0,0,0,1/80,0,0], [0,0,0,0,0,0,1/80,0], [0,0,0,0,0,0,0,1/80]])"
  unfolding prepare_ghz_state_3 measure_qubit_def projector_0 projector_1
  by (simp add: eval_matrix)

lemma measured_rank_one:
  assumes "i < 8" "j < 8"
  shows "[[37/80,0,0,0,9/20,0,0,0], [0,1/80,0,0,0,0,0,0], [0,0,1/80,0,0,0,0,0], [0,0,0,1/80,0,0,0,0],
        [9/20,0,0,0,37/80,0,0,0], [0,0,0,0,0,1/80,0,0], [0,0,0,0,0,0,1/80,0], [0,0,0,0,0,0,0,1/80::complex]] ! i ! j
     = complex_of_real (9/10) * plus_zero_zero ! i * cnj (plus_zero_zero ! j)
       + (if i = j then complex_of_real (1/80) else 0)"
proof -
  have "[[37/80,0,0,0,9/20,0,0,0], [0,1/80,0,0,0,0,0,0], [0,0,1/80,0,0,0,0,0], [0,0,0,1/80,0,0,0,0],
        [9/20,0,0,0,37/80,0,0,0], [0,0,0,0,0,1/80,0,0], [0,0,0,0,0,0,1/80,0], [0,0,0,0,0,0,0,1/80::complex]]
      = map (\<lambda>i. map (\<lambda>j. complex_of_real (9/10) * plus_zero_zero ! i * cnj (plus_zero_zero ! j)
       + (if i = j then complex_of_real (1/80) else 0)) [0..<8]) [0..<8]"
    by (simp add: upt_0_8 plus_zero_zero_def flip: of_real_mult)
  then show ?thesis using assms by (simp del: upt_Suc)
qed

lemma sum_list_scale:
  "sum_list (map2 (*) r (map (\<lambda>x. z * x) v)) = z * sum_list (map2 (*) r v)" for z :: complex
proof (induction r arbitrary: v)
  case Nil
  then show ?case by simp
next
  case (Cons a r)
  then show ?case by (cases v) (simp_all add: algebra_simps)
qed

lemma mat_vec_scale: "mat_vec A (map (\<lambda>x. z * x) v) = map (\<lambda>x. z * x) (mat_vec A v)"
  by (simp add: mat_vec_def dot_def sum_list_scale)

lemma outer_phase:
  assumes "cmod z = 1"
  shows "outer (map (\<lambda>x. z * x) v) (map cnj (map (\<lambda>x. z * x) v)) = outer v (map cnj v)"
proof -
  have "z * cnj z = 1"
    using complex_norm_square [of z] assms by simp
  then have "z * a * (cnj z * b) = a * b" for a b
    by (simp add: algebra_simps)
  then show ?thesis by (simp add: outer_def comp_def)
qed

lemma floquet_conjugation_inverse:
  assumes "expm_contract expm" "is_mat 8 8 R"
  shows "matmul (matmul (mat_pow (U_floquet_dag expm) 5)
            (matmul (matmul (mat_pow (U_floquet expm) 5) R) (dagger (mat_pow (U_floquet expm) 5))))
          (dagger (mat_pow (U_floquet_dag expm) 5)) = R"
proof -
  note ff = floquet_facts [OF assms(1)]
  have pos: "(0::nat) < 8" by simp
  have U: "is_mat 8 8 (mat_pow (U_floquet expm) 5)" and V: "is_mat 8 8 (mat_pow (U_floquet_dag expm) 5)"
    using ff by (simp_all add: mat_pow_is_mat)
  have VU: "matmul (mat_pow (U_floquet_dag expm) 5) (mat_pow (U_floquet expm) 5) = eye 8"
    using mat_pow_inverse [OF ff(1,2) pos ff(3)] .
  show ?thesis
    using conjugation_inverse [OF V U assms(2) pos VU] .
qed

lemma cnot_0_1_plus_zero_zero: "mat_vec (cnot_gate 3 0 1) plus_zero_zero = plus_zero_zero"
  unfolding cnot_0_1 by (simp add: plus_zero_zero_def mat_vec_def dot_def)

lemma H_full_plus_zero_zero:
  "mat_vec (kron hadamard (eye 4)) plus_zero_zero = [1, 0, 0, 0, 0, 0, 0, 0]"
  unfolding H_full_value Let_def
  by (simp add: plus_zero_zero_def mat_vec_def dot_def flip: of_real_mult)

lemma outer_basis_zero:
  "outer [1, 0, 0, 0, 0, 0, 0, 0] (map cnj [1, 0, 0, 0, 0, 0, 0, 0]) = Q initial_state"
  unfolding initial_state_Q by (simp add: outer_def)

lemma arnold_cat_map_bits_range:
  "length (arnold_cat_map_bits bits) = length bits"
  "list_all (\<lambda>b. b = 0 \<or> b = 1) (arnold_cat_map_bits bits)"
proof -
  have "x AND 1 = 0 \<or> x AND 1 = 1" for x :: int
    by (simp add: and_one_eq) presburger
  then show "list_all (\<lambda>b. b = 0 \<or> b = 1) (arnold_cat_map_bits bits)"
    by (simp add: arnold_cat_map_bits_def Let_def list_all_iff)
  show "length (arnold_cat_map_bits bits) = length bits"
    by (simp add: arnold_cat_map_bits_def Let_def)
qed

lemma f_info_inv_plus:
  assumes "eigh_contract eigh (Q st)" "7 \<le> length (C st)"
    and Q: "Q st =
       [[37/80,0,0,0,9/20,0,0,0], [0,1/80,0,0,0,0,0,0], [0,0,1/80,0,0,0,0,0], [0,0,0,1/80,0,0,0,0],
        [9/20,0,0,0,37/80,0,0,0], [0,0,0,0,0,1/80,0,0], [0,0,0,0,0,0,1/80,0], [0,0,0,0,0,0,0,1/80]]"
  shows "\<exists>X. f_info_inv eigh st = Inr X \<and> Q X = prepare_ghz_state 3"
proof -
  have m: "is_mat 8 8 (Q st)" unfolding Q by (simp add: is_mat_def)
  have a: "(0::real) < 9 / 10" by simp
  have "\<exists>z. cmod z = 1 \<and> dominant_eigenvector eigh (Q st) = map (\<lambda>x. z * x) plus_zero_zero"
    by (rule dominant_eigenvector_rank_one [OF plus_zero_zero_unit a m _ assms(1)])
       (simp only: Q measured_rank_one)
  then obtain z where z: "cmod z = 1"
    "dominant_eigenvector eigh (Q st) = map (\<lambda>x. z * x) plus_zero_zero" by blast
  from f_info_inv_unfold [OF m assms(2), of eigh] obtain C_dec where
    "f_info_inv eigh st =
     Inr \<lparr> C = C_dec,
           Q = outer (dominant_eigenvector eigh (Q st)) (map cnj (dominant_eigenvector eigh (Q st))),
           morphisms_applied = morphisms_applied st - {''f_info''}, points = None \<rparr>" by blast
  then show ?thesis
    unfolding z(2) outer_phase [OF z(1)] prepare_ghz_state_outer by simp
qed

lemma f_alg_inv_plus:
  assumes "eigh_contract eigh (Q st)" and Q: "Q st = prepare_ghz_state 3"
  shows "f_alg_inv eigh st = Inr initial_state"
proof -
  have m: "is_mat 8 8 (Q st)" unfolding Q prepare_ghz_state_3 by (simp add: is_mat_def)
  have a: "(0::real) < 1" by simp
  have e: "Q st ! i ! j = complex_of_real 1 * plus_zero_zero ! i * cnj (plus_zero_zero ! j)
       + (if i = j then complex_of_real 0 else 0)" if "i < 8" "j < 8" for i j
    unfolding Q prepare_ghz_state_outer using outer_sq(2) [OF plus_zero_zero_unit(1) that] by simp
  have "\<exists>z. cmod z = 1 \<and> dominant_eigenvector eigh (Q st) = map (\<lambda>x. z * x) plus_zero_zero"
    by (rule dominant_eigenvector_rank_one [OF plus_zero_zero_unit a m e assms(1)])
  then obtain z where z: "cmod z = 1"
    "dominant_eigenvector eigh (Q st) = map (\<lambda>x. z * x) plus_zero_zero" by blast
  have "mat_vec (kron hadamard (eye 4)) (mat_vec (cnot_gate 3 0 1) (dominant_eigenvector eigh (Q st)))
        = map (\<lambda>x. z * x) [1, 0, 0, 0, 0, 0, 0, 0]"
    unfolding z(2) mat_vec_scale cnot_0_1_plus_zero_zero H_full_plus_zero_zero ..
  then have "f_alg_inv eigh st =
     Inr \<lparr> C = replicate 8 0, Q = Q initial_state, morphisms_applied = {}, points = None \<rparr>"
    unfolding f_alg_inv_unfold [OF m] outer_phase [OF z(1)] outer_basis_zero
    by (simp only: outer_phase [OF z(1)] outer_basis_zero)
  then show ?thesis
    by (simp add: initial_state_def N_BITS_def)
qed

lemma plus_basis_dagger:
  "dagger plus_basis =
     (let h = 1 / complex_of_real (sqrt 2)
      in [[0,1,0,0,0,0,0,0], [0,0,1,0,0,0,0,0], [0,0,0,1,0,0,0,0], [0,0,0,0,0,1,0,0],
          [0,0,0,0,0,0,1,0], [0,0,0,0,0,0,0,1], [h,0,0,0,-h,0,0,0], [h,0,0,0,h,0,0,0]])"
  by (simp add: plus_basis_def dagger_def ncols_def column_def upt_0_8 Let_def)

lemma plus_basis_unitary:
  "is_mat 8 8 plus_basis"
  "matmul (dagger plus_basis) plus_basis = eye 8"
  "matmul plus_basis (dagger plus_basis) = eye 8"
  unfolding plus_basis_dagger unfolding plus_basis_def Let_def
  by (simp_all add: is_mat_def matmul_def ncols_def column_def dot_def upt_0_8 eye_def
      flip: of_real_mult)

lemma diag_mat_8:
  "diag_mat [b, b, b, b, b, b, b, t] =
     [[complex_of_real b,0,0,0,0,0,0,0], [0,complex_of_real b,0,0,0,0,0,0],
      [0,0,complex_of_real b,0,0,0,0,0], [0,0,0,complex_of_real b,0,0,0,0],
      [0,0,0,0,complex_of_real b,0,0,0], [0,0,0,0,0,complex_of_real b,0,0],
      [0,0,0,0,0,0,complex_of_real b,0], [0,0,0,0,0,0,0,complex_of_real t]]"
  by (simp add: diag_mat_def upt_0_8)

lemma eigh_closed_form_plus: "eigh_contract eigh_closed_form (prepare_ghz_state 3)"
proof -
  have v: "eigh_closed_form (prepare_ghz_state 3) = ([0, 0, 0, 0, 0, 0, 0, 1], plus_basis)"
    unfolding prepare_ghz_state_3 by (simp add: eigh_closed_form_def Let_def)
  have "matmul (prepare_ghz_state 3) plus_basis = matmul plus_basis (diag_mat [0, 0, 0, 0, 0, 0, 0, 1])"
    unfolding prepare_ghz_state_3 diag_mat_8 unfolding plus_basis_def Let_def
    by (simp add: matmul_def ncols_def column_def dot_def upt_0_8)
  then show ?thesis
    unfolding eigh_contract_def v using plus_basis_unitary by simp
qed

lemma eigh_closed_form_measured:
  "eigh_contract eigh_closed_form
     [[37/80,0,0,0,9/20,0,0,0], [0,1/80,0,0,0,0,0,0], [0,0,1/80,0,0,0,0,0], [0,0,0,1/80,0,0,0,0],
      [9/20,0,0,0,37/80,0,0,0], [0,0,0,0,0,1/80,0,0], [0,0,0,0,0,0,1/80,0], [0,0,0,0,0,0,0,1/80]]"
proof -
  let ?M = "[[37/80,0,0,0,9/20,0,0,0], [0,1/80,0,0,0,0,0,0], [0,0,1/80,0,0,0,0,0], [0,0,0,1/80,0,0,0,0],
      [9/20,0,0,0,37/80,0,0,0], [0,0,0,0,0,1/80,0,0], [0,0,0,0,0,0,1/80,0], [0,0,0,0,0,0,0,1/80::complex]]"
  have v: "eigh_closed_form ?M = ([1/80, 1/80, 1/80, 1/80, 1/80, 1/80, 1/80, 73/80], plus_basis)"
    by (simp add: eigh_closed_form_def Let_def)
  have "matmul ?M plus_basis = matmul plus_basis (diag_mat [1/80, 1/80, 1/80, 1/80, 1/80, 1/80, 1/80, 73/80])"
    unfolding diag_mat_8 unfolding plus_basis_def Let_def
    by (simp add: matmul_def ncols_def column_def dot_def upt_0_8)
  then show ?thesis
    unfolding eigh_contract_def v using plus_basis_unitary by simp
qed

lemma trace_overlap_origin: "trace_overlap (Q initial_state) (Q initial_state) = 1"
  unfolding initial_state_Q by (simp add: trace_overlap_def eval_matrix)

text \<open>
  Claim C1. From the origin state, \<open>f_alg\<close> and then \<open>f_info\<close> succeed for every value
  \<open>u\<close> of the measurement draw; with an eigensolver that is correct on the quantum
  components of the two states \<open>X\<^sub>1\<close> and \<open>X\<^sub>2\<close> so obtained, \<open>f_dyn\<close> and \<open>f_geom\<close> succeed
  as well, and the closing composition \<open>phi\<close> applied to \<open>X\<^sub>4\<close> returns a state whose
  classical component is the origin's, bit for bit, and whose quantum component is the
  origin's, so that the normalized trace overlap is 1, above the bound 0.9. The
  matrix exponential and the eigensolver are parameters under their contracts, the
  point sampler and the number of points are arbitrary, and the arithmetic is exact.
\<close>

theorem cycle_round_trip:
  assumes "expm_contract expm"
  shows "\<exists>X_2. morphism_2_syndrome_encoding u (morphism_1_circuit_compilation initial_state) = Inr X_2
     \<and> (eigh_contract eigh (Q (morphism_1_circuit_compilation initial_state))
          \<and> eigh_contract eigh (Q X_2)
        \<longrightarrow> (\<exists>X_3 X_4 X_0'.
               morphism_3_arnold_cat expm X_2 = Inr X_3
               \<and> morphism_4_disk_to_annulus sampler X_3 n_points = Inr X_4
               \<and> phi_closing_isomorphism expm eigh X_4 = Inr X_0'
               \<and> C X_0' = C initial_state
               \<and> Q X_0' = Q initial_state
               \<and> trace_overlap (Q initial_state) (Q X_0') = 1
               \<and> 9 / 10 \<le> Re (trace_overlap (Q initial_state) (Q X_0'))))"
proof -
  let ?M = "[[37/80,0,0,0,9/20,0,0,0], [0,1/80,0,0,0,0,0,0], [0,0,1/80,0,0,0,0,0], [0,0,0,1/80,0,0,0,0],
      [9/20,0,0,0,37/80,0,0,0], [0,0,0,0,0,1/80,0,0], [0,0,0,0,0,0,1/80,0], [0,0,0,0,0,0,0,1/80::complex]]"
  define X_1 where "X_1 = morphism_1_circuit_compilation initial_state"
  have q1: "Q X_1 = prepare_ghz_state 3" and c1: "7 \<le> length (C X_1)"
    by (simp_all add: X_1_def morphism_1_circuit_compilation_def N_QUBITS_def prg_expand_seed)
  have l1: "length (C X_1) = 8"
    by (simp add: X_1_def morphism_1_circuit_compilation_def prg_expand_seed)
  have meas: "measure_qubit u (Q X_1) 0 N_QUBITS = Inr (if u < 1 then 0 else 1, ?M)"
    unfolding q1 N_QUBITS_def by (rule measure_plus_state)
  from f_info_accepts [OF c1 meas] l1 obtain X_2 where
    s2: "morphism_2_syndrome_encoding u X_1 = Inr X_2" and q2: "Q X_2 = ?M"
    and l2: "length (C X_2) = 8"
    by force
  have m2: "is_mat 8 8 (Q X_2)" unfolding q2 by (simp add: is_mat_def)
  have rest: "\<exists>X_3 X_4 X_0'.
               morphism_3_arnold_cat expm X_2 = Inr X_3
               \<and> morphism_4_disk_to_annulus sampler X_3 n_points = Inr X_4
               \<and> phi_closing_isomorphism expm eigh X_4 = Inr X_0'
               \<and> C X_0' = C initial_state
               \<and> Q X_0' = Q initial_state
               \<and> trace_overlap (Q initial_state) (Q X_0') = 1
               \<and> 9 / 10 \<le> Re (trace_overlap (Q initial_state) (Q X_0'))"
    if e1: "eigh_contract eigh (Q X_1)" and e2: "eigh_contract eigh (Q X_2)"
  proof -
    define Q_3 where "Q_3 = matmul (matmul (mat_pow (U_floquet expm) 5) (Q X_2))
        (dagger (mat_pow (U_floquet expm) 5))"
    define X_3 where "X_3 = \<lparr> C = arnold_cat_map_bits (C X_2), Q = Q_3,
        morphisms_applied = insert ''f_dyn'' (morphisms_applied X_2), points = None \<rparr>"
    have s3: "morphism_3_arnold_cat expm X_2 = Inr X_3"
      using m2
      by (simp add: morphism_3_arnold_cat_def Let_def DIM_HILBERT_def N_QUBITS_def X_3_def Q_3_def
          kicked_ising_evolution_unfold [unfolded N_QUBITS_def])
    have m3: "is_mat 8 8 Q_3"
      using floquet_power_unitary(1) [OF assms] m2
      by (simp add: Q_3_def matmul_sq(1) [where n = 8] dagger_sq(1) [where n = 8])
    have c3: "C X_3 \<noteq> []" "list_all (\<lambda>b. b = 0 \<or> b = 1) (C X_3)"
      using l2 arnold_cat_map_bits_range [of "C X_2"] by (auto simp: X_3_def)
    define X_4 where "X_4 = \<lparr> C = C X_3, Q = Q X_3,
        morphisms_applied = insert ''f_geom'' (morphisms_applied X_3),
        points = Some (T_a (map (\<lambda>(u, v). (sqrt u * cos (2 * pi * v), sqrt u * sin (2 * pi * v)))
                  (sampler (nat (binary_value (C X_3) mod 2 ^ 31)) n_points)) A_PARAM) \<rparr>"
    have s4: "morphism_4_disk_to_annulus sampler X_3 n_points = Inr X_4"
      using c3 by (simp add: morphism_4_disk_to_annulus_def bits_to_points_def Let_def X_4_def)
    define X_3b where "X_3b = f_geom_inv X_4"
    have q3b: "Q X_3b = Q_3" and l3b: "length (C X_3b) = 8"
      using l2 arnold_cat_map_bits_range(1) [of "C X_2"]
      by (simp_all add: X_3b_def f_geom_inv_def Let_def X_4_def X_3_def)
    have m3b: "is_mat 8 8 (Q X_3b)" using m3 q3b by simp
    define X_2b where "X_2b = \<lparr> C = unpermute_bits (unmix_bits (C X_3b)),
           Q = matmul (matmul (mat_pow (U_floquet_dag expm) 5) (Q X_3b))
                 (dagger (mat_pow (U_floquet_dag expm) 5)),
           morphisms_applied = morphisms_applied X_3b - {''f_dyn''}, points = None \<rparr>"
    have s2b: "f_dyn_inv expm X_3b = Inr X_2b"
      by (simp add: f_dyn_inv_unfold [OF m3b] X_2b_def)
    have q2b: "Q X_2b = Q X_2"
      using floquet_conjugation_inverse [OF assms m2] by (simp add: X_2b_def q3b Q_3_def)
    have l2b: "7 \<le> length (C X_2b)"
      using l3b by (simp add: X_2b_def length_unpermute_bits length_unmix_bits)
    have e2b: "eigh_contract eigh (Q X_2b)" using e2 q2b by simp
    from f_info_inv_plus [OF e2b l2b] q2b q2 obtain X_1b where
      s1b: "f_info_inv eigh X_2b = Inr X_1b" and q1b: "Q X_1b = prepare_ghz_state 3"
      by auto
    have e1b: "eigh_contract eigh (Q X_1b)" using e1 q1 q1b by simp
    have s0: "f_alg_inv eigh X_1b = Inr initial_state"
      by (rule f_alg_inv_plus [OF e1b q1b])
    have phi: "phi_closing_isomorphism expm eigh X_4 = Inr initial_state"
      using s2b s1b s0 by (simp add: phi_closing_isomorphism_def Let_def X_3b_def [symmetric])
    show ?thesis
      using s3 s4 phi trace_overlap_origin by simp
  qed
  show ?thesis
    using s2 rest unfolding X_1_def by blast
qed

theorem cycle_round_trip_witness:
  "expm_contract expm_closed_form
   \<and> (\<exists>X_2 X_3 X_4 X_0'.
        morphism_2_syndrome_encoding 0 (morphism_1_circuit_compilation initial_state) = Inr X_2
        \<and> eigh_contract eigh_closed_form (Q (morphism_1_circuit_compilation initial_state))
        \<and> eigh_contract eigh_closed_form (Q X_2)
        \<and> morphism_3_arnold_cat expm_closed_form X_2 = Inr X_3
        \<and> morphism_4_disk_to_annulus (\<lambda>seed n. replicate n (1 / 4, 1 / 2)) X_3 2 = Inr X_4
        \<and> phi_closing_isomorphism expm_closed_form eigh_closed_form X_4 = Inr X_0'
        \<and> C X_0' = C initial_state
        \<and> Q X_0' = Q initial_state
        \<and> trace_overlap (Q initial_state) (Q X_0') = 1
        \<and> 9 / 10 \<le> Re (trace_overlap (Q initial_state) (Q X_0')))"
proof -
  let ?M = "[[37/80,0,0,0,9/20,0,0,0], [0,1/80,0,0,0,0,0,0], [0,0,1/80,0,0,0,0,0], [0,0,0,1/80,0,0,0,0],
      [9/20,0,0,0,37/80,0,0,0], [0,0,0,0,0,1/80,0,0], [0,0,0,0,0,0,1/80,0], [0,0,0,0,0,0,0,1/80::complex]]"
  let ?X_1 = "morphism_1_circuit_compilation initial_state"
  let ?sampler = "\<lambda>(seed::nat) n. replicate n (1 / 4 :: real, 1 / 2 :: real)"
  from cycle_round_trip [OF expm_closed_form_contract, of 0 eigh_closed_form ?sampler 2]
  obtain X_2 where s2: "morphism_2_syndrome_encoding 0 ?X_1 = Inr X_2"
    and imp: "eigh_contract eigh_closed_form (Q ?X_1) \<and> eigh_contract eigh_closed_form (Q X_2)
        \<longrightarrow> (\<exists>X_3 X_4 X_0'.
               morphism_3_arnold_cat expm_closed_form X_2 = Inr X_3
               \<and> morphism_4_disk_to_annulus ?sampler X_3 2 = Inr X_4
               \<and> phi_closing_isomorphism expm_closed_form eigh_closed_form X_4 = Inr X_0'
               \<and> C X_0' = C initial_state
               \<and> Q X_0' = Q initial_state
               \<and> trace_overlap (Q initial_state) (Q X_0') = 1
               \<and> 9 / 10 \<le> Re (trace_overlap (Q initial_state) (Q X_0')))"
    by blast
  have q1: "Q ?X_1 = prepare_ghz_state 3" and c1: "7 \<le> length (C ?X_1)"
    by (simp_all add: morphism_1_circuit_compilation_def N_QUBITS_def prg_expand_seed)
  have meas: "measure_qubit 0 (Q ?X_1) 0 N_QUBITS = Inr (if (0::real) < 1 then 0 else 1, ?M)"
    unfolding q1 N_QUBITS_def by (rule measure_plus_state)
  from f_info_accepts [OF c1 meas] s2 have q2: "Q X_2 = ?M" by force
  have e1: "eigh_contract eigh_closed_form (Q ?X_1)"
    unfolding q1 by (rule eigh_closed_form_plus)
  have e2: "eigh_contract eigh_closed_form (Q X_2)"
    unfolding q2 by (rule eigh_closed_form_measured)
  from imp e1 e2 obtain X_3 X_4 X_0' where
    "morphism_3_arnold_cat expm_closed_form X_2 = Inr X_3
               \<and> morphism_4_disk_to_annulus ?sampler X_3 2 = Inr X_4
               \<and> phi_closing_isomorphism expm_closed_form eigh_closed_form X_4 = Inr X_0'
               \<and> C X_0' = C initial_state
               \<and> Q X_0' = Q initial_state
               \<and> trace_overlap (Q initial_state) (Q X_0') = 1
               \<and> 9 / 10 \<le> Re (trace_overlap (Q initial_state) (Q X_0'))"
    by blast
  with s2 e1 e2 expm_closed_form_contract show ?thesis by blast
qed

lemma produces_valid_when_produced: "produces_valid r \<Longrightarrow> valid_when_produced r"
  by (cases r) (simp_all add: produces_valid_def valid_when_produced_def)

lemma f_info_when_produced:
  assumes "valid_density (Q st)"
  shows "valid_when_produced (morphism_2_syndrome_encoding u st)"
proof (cases "encode_syndromes (C st) 0 (map parity (syndrome_blocks (C st)))")
  case (Inl e)
  then show ?thesis
    by (simp add: morphism_2_syndrome_encoding_def Let_def valid_when_produced_def)
next
  case (Inr C_2)
  from measure_qubit_valid [OF assms, of u] obtain outcome Q_2 where
    m: "measure_qubit u (Q st) 0 N_QUBITS = Inr (outcome, Q_2)" and v: "valid_density Q_2"
    by (auto simp: N_QUBITS_def)
  show ?thesis
    using Inr m v
    by (simp add: morphism_2_syndrome_encoding_def Let_def valid_when_produced_def
        valid_density_tolerance)
qed

lemma f_geom_when_produced:
  assumes "valid_density (Q st)"
  shows "valid_when_produced (morphism_4_disk_to_annulus sampler st n_points)"
  using assms
  by (simp add: morphism_4_disk_to_annulus_def bits_to_points_def Let_def valid_when_produced_def
      valid_density_tolerance)

lemma f_info_inv_when_produced:
  assumes "eigh_normalized eigh" "is_mat 8 8 (Q st)"
  shows "valid_when_produced (f_info_inv eigh st)"
proof (cases "decode_syndromes (C st) 0 (map parity (syndrome_blocks (C st)))")
  case (Inl e)
  then show ?thesis by (simp add: f_info_inv_def valid_when_produced_def)
next
  case (Inr C_dec)
  have d: "length (dominant_eigenvector eigh (Q st)) = 8"
    "inner (dominant_eigenvector eigh (Q st)) (dominant_eigenvector eigh (Q st)) = 1"
    using assms by (simp_all add: eigh_normalized_def)
  have ne: "Q st \<noteq> []" using assms(2) by (auto simp: is_mat_def)
  show ?thesis
    using Inr ne is_mat_square [OF assms(2)] outer_valid [OF d]
    by (simp add: f_info_inv_def Let_def valid_when_produced_def valid_density_tolerance)
qed

lemma phi_when_produced:
  assumes "expm_contract expm" "eigh_normalized eigh" "valid_density (Q st)"
  shows "valid_when_produced (phi_closing_isomorphism expm eigh st)"
proof -
  define X3 where "X3 = f_geom_inv st"
  have q3: "Q X3 = Q st"
    by (simp add: X3_def f_geom_inv_def Let_def)
  have m3: "is_mat 8 8 (Q X3)" using assms(3) q3 by (simp add: valid_density_def)
  define X2 where "X2 = \<lparr> C = unpermute_bits (unmix_bits (C X3)),
           Q = matmul (matmul (mat_pow (U_floquet_dag expm) 5) (Q X3))
                 (dagger (mat_pow (U_floquet_dag expm) 5)),
           morphisms_applied = morphisms_applied X3 - {''f_dyn''}, points = None \<rparr>"
  have s2: "f_dyn_inv expm X3 = Inr X2"
    by (simp add: f_dyn_inv_unfold [OF m3] X2_def)
  have "produces_valid (f_dyn_inv expm X3)"
    using f_dyn_inv_valid [OF assms(1)] assms(3) q3 by simp
  then have m2: "is_mat 8 8 (Q X2)"
    by (simp add: s2 produces_valid_def valid_density_def)
  show ?thesis
  proof (cases "f_info_inv eigh X2")
    case (Inl e)
    then show ?thesis
      using s2 by (simp add: phi_closing_isomorphism_def Let_def X3_def [symmetric]
          valid_when_produced_def)
  next
    case (Inr X1)
    have "valid_when_produced (f_info_inv eigh X2)"
      by (rule f_info_inv_when_produced [OF assms(2) m2])
    then have m1: "is_mat 8 8 (Q X1)"
      by (simp add: Inr valid_when_produced_def valid_density_def)
    have "phi_closing_isomorphism expm eigh st = f_alg_inv eigh X1"
      using s2 Inr by (simp add: phi_closing_isomorphism_def Let_def X3_def [symmetric])
    then show ?thesis
      using f_alg_inv_valid [OF assms(2) m1] by (simp add: produces_valid_when_produced)
  qed
qed

lemma argmax_closed_form: "argmax [b, b, b, b, b, b, b, t] = (if b < t then 7 else 0)"
  by (simp add: argmax_def)

lemma eigh_closed_form_normalized: "eigh_normalized eigh_closed_form"
proof -
  have c7: "column plus_basis 7 = plus_zero_zero"
    by (simp add: plus_basis_def column_def Let_def plus_zero_zero_def)
  have c0: "column plus_basis 0 = [0, 1, 0, 0, 0, 0, 0, 0]"
    by (simp add: plus_basis_def column_def Let_def)
  have u0: "inner [0, 1, 0, 0, 0, 0, 0, 0] [0, 1, 0, 0, 0, 0, 0, 0] = 1"
    by (simp add: inner_def dot_def)
  have "length (dominant_eigenvector eigh_closed_form M) = 8
      \<and> inner (dominant_eigenvector eigh_closed_form M) (dominant_eigenvector eigh_closed_form M) = 1"
    for M
    using plus_zero_zero_unit u0
    by (simp add: dominant_eigenvector_def eigh_closed_form_def Let_def argmax_closed_form c7 c0)
  then show ?thesis by (simp add: eigh_normalized_def)
qed

lemma initial_state_valid: "valid_density (Q initial_state)"
proof -
  have "inner [1, 0, 0, 0, 0, 0, 0, 0] [1, 0, 0, 0, 0, 0, 0, 0] = 1"
    by (simp add: inner_def dot_def)
  from outer_valid [OF _ this] show ?thesis
    unfolding outer_basis_zero by simp
qed

text \<open>
  Claim C3. Let the quantum component of a state be a valid density matrix. Then
  \<open>f_alg\<close>, \<open>f_dyn\<close>, \<open>f_geom_inv\<close>, \<open>f_dyn_inv\<close> and \<open>f_alg_inv\<close> return a state whose
  quantum component is Hermitian, of trace 1 and without a negative eigenvalue,
  hence within the tolerances \<open>1e-6\<close> and \<open>-1e-8\<close>; \<open>f_info\<close>, \<open>f_geom\<close>, \<open>f_info_inv\<close>
  and \<open>phi\<close>, which can raise on the classical component, return such a state
  whenever they return, and they do return when the classical component has
  eight bits, each 0 or 1. The matrix exponential and the eigensolver are
  parameters under \<open>expm_contract\<close> and \<open>eigh_normalized\<close>; the arithmetic is exact.
\<close>

theorem morphisms_preserve_validity:
  assumes "expm_contract expm" "eigh_normalized eigh" "valid_density (Q st)"
  shows "produces_valid (Inr (morphism_1_circuit_compilation st))
     \<and> produces_valid (morphism_3_arnold_cat expm st)
     \<and> produces_valid (Inr (f_geom_inv st))
     \<and> produces_valid (f_dyn_inv expm st)
     \<and> produces_valid (f_alg_inv eigh st)
     \<and> valid_when_produced (morphism_2_syndrome_encoding u st)
     \<and> valid_when_produced (morphism_4_disk_to_annulus sampler st n_points)
     \<and> valid_when_produced (f_info_inv eigh st)
     \<and> valid_when_produced (phi_closing_isomorphism expm eigh st)
     \<and> (length (C st) = 8 \<and> list_all (\<lambda>b. b = 0 \<or> b = 1) (C st) \<longrightarrow>
          produces_valid (morphism_2_syndrome_encoding u st)
          \<and> produces_valid (morphism_4_disk_to_annulus sampler st n_points)
          \<and> produces_valid (f_info_inv eigh st)
          \<and> produces_valid (phi_closing_isomorphism expm eigh st))"
proof -
  have m: "is_mat 8 8 (Q st)" using assms(3) by (simp add: valid_density_def)
  have p1: "produces_valid (Inr (morphism_1_circuit_compilation st))"
    by (rule produces_valid_Inr [OF f_alg_valid])
  have p2: "produces_valid (morphism_3_arnold_cat expm st)"
    by (rule f_dyn_valid [OF assms(1,3)])
  have p3: "produces_valid (Inr (f_geom_inv st))"
    by (rule f_geom_inv_valid [OF assms(3)])
  have p4: "produces_valid (f_dyn_inv expm st)"
    by (rule f_dyn_inv_valid [OF assms(1,3)])
  have p5: "produces_valid (f_alg_inv eigh st)"
    by (rule f_alg_inv_valid [OF assms(2) m])
  have k1: "valid_when_produced (morphism_2_syndrome_encoding u st)"
    by (rule f_info_when_produced [OF assms(3)])
  have k2: "valid_when_produced (morphism_4_disk_to_annulus sampler st n_points)"
    by (rule f_geom_when_produced [OF assms(3)])
  have k3: "valid_when_produced (f_info_inv eigh st)"
    by (rule f_info_inv_when_produced [OF assms(2) m])
  have k4: "valid_when_produced (phi_closing_isomorphism expm eigh st)"
    by (rule phi_when_produced [OF assms])
  have t: "produces_valid (morphism_2_syndrome_encoding u st)
          \<and> produces_valid (morphism_4_disk_to_annulus sampler st n_points)
          \<and> produces_valid (f_info_inv eigh st)
          \<and> produces_valid (phi_closing_isomorphism expm eigh st)"
    if c: "length (C st) = 8" "list_all (\<lambda>b. b = 0 \<or> b = 1) (C st)"
  proof -
    have l: "7 \<le> length (C st)" "C st \<noteq> []" using c(1) by auto
    show ?thesis
      using f_info_valid [OF assms(3) l(1)] f_geom_valid [OF assms(3) l(2) c(2)]
        f_info_inv_valid [OF assms(2) m l(1)] phi_valid [OF assms c(1)]
      by (intro conjI)
  qed
  show ?thesis
    using p1 p2 p3 p4 p5 k1 k2 k3 k4 t by (intro conjI impI) simp_all
qed

theorem morphisms_preserve_validity_witness:
  "expm_contract expm_closed_form \<and> eigh_normalized eigh_closed_form
   \<and> valid_density (Q initial_state)
   \<and> length (C initial_state) = 8 \<and> list_all (\<lambda>b. b = 0 \<or> b = 1) (C initial_state)
   \<and> produces_valid (Inr (morphism_1_circuit_compilation initial_state))
   \<and> produces_valid (morphism_2_syndrome_encoding 0 initial_state)
   \<and> produces_valid (morphism_3_arnold_cat expm_closed_form initial_state)
   \<and> produces_valid (morphism_4_disk_to_annulus (\<lambda>seed n. replicate n (1 / 4, 1 / 2)) initial_state 2)
   \<and> produces_valid (phi_closing_isomorphism expm_closed_form eigh_closed_form initial_state)
   \<and> produces_valid (Inr (f_geom_inv initial_state))
   \<and> produces_valid (f_dyn_inv expm_closed_form initial_state)
   \<and> produces_valid (f_info_inv eigh_closed_form initial_state)
   \<and> produces_valid (f_alg_inv eigh_closed_form initial_state)"
proof -
  have c: "length (C initial_state) = 8 \<and> list_all (\<lambda>b. b = 0 \<or> b = 1) (C initial_state)"
    by (simp add: initial_state_C)
  note t = morphisms_preserve_validity [OF expm_closed_form_contract eigh_closed_form_normalized
      initial_state_valid, of 0 "\<lambda>seed n. replicate n (1 / 4, 1 / 2)" 2]
  have a: "produces_valid (Inr (morphism_1_circuit_compilation initial_state))"
    "produces_valid (morphism_3_arnold_cat expm_closed_form initial_state)"
    "produces_valid (Inr (f_geom_inv initial_state))"
    "produces_valid (f_dyn_inv expm_closed_form initial_state)"
    "produces_valid (f_alg_inv eigh_closed_form initial_state)"
    using t by (simp_all only:)
  have b: "produces_valid (morphism_2_syndrome_encoding 0 initial_state)
          \<and> produces_valid (morphism_4_disk_to_annulus (\<lambda>seed n. replicate n (1 / 4, 1 / 2)) initial_state 2)
          \<and> produces_valid (f_info_inv eigh_closed_form initial_state)
          \<and> produces_valid (phi_closing_isomorphism expm_closed_form eigh_closed_form initial_state)"
    using t c by blast
  show ?thesis
    using a b c expm_closed_form_contract eigh_closed_form_normalized initial_state_valid
    by (intro conjI) simp_all
qed

end
